theory Spec2Isabelle
  imports Main "HOL-Library.Monad_Syntax"
begin

section \<open>The exec plugin: executed commands, their registry and their completion\<close>

text \<open>
  This theory embeds \<^verbatim>\<open>src/plugins/exec/exec.c\<close>. The executed commands live in
  malloc'ed structures linked in both directions; the model keeps them in an explicit
  store from addresses to structures, so that the pointer surgery of \<^verbatim>\<open>exec_add\<close>
  and \<^verbatim>\<open>exec_free\<close> is modelled as written. A function of the model returns
  \<open>None\<close> when the C function would dereference a pointer that is not live (or, for
  a loop over the list, when it would never leave the loop).

  What the plugin asks of the WeeChat core (commands, printed lines, hsignals, timers) is
  recorded in the state in the order of the calls. The platform is one with a 32-bit
  \<^verbatim>\<open>int\<close> and a 64-bit \<^verbatim>\<open>long\<close>, the locale is the C locale, and messages
  are shown as they are written in the source, not translated.
\<close>

subsection \<open>Machine integers\<close>

text \<open>
  A C \<^verbatim>\<open>int\<close> is 32 bits wide. Values are kept as mathematical integers and every
  arithmetic result is brought back into range by \<open>int32\<close> (two's complement
  wrap-around; the C standard leaves signed overflow undefined).
\<close>

definition int32 :: "int \<Rightarrow> int" where
  "int32 x = (x + 2147483648) mod 4294967296 - 2147483648"

definition LONG_MAX :: int where
  "LONG_MAX = 9223372036854775807"

definition LONG_MIN :: int where
  "LONG_MIN = - 9223372036854775808"

subsection \<open>Data\<close>

type_synonym addr = nat
type_synonym gui_buffer = nat
type_synonym hook_ptr = nat

text \<open>
  \<^verbatim>\<open>struct t_exec_cmd\<close>. A \<^verbatim>\<open>char *\<close> field is a \<open>string option\<close>
  (\<open>None\<close> is \<^verbatim>\<open>NULL\<close>, the string holds the bytes before the terminating zero);
  the integer flags are kept as integers and tested against zero as in C.
\<close>

record exec_cmd =
  number :: int
  name :: "string option"
  hook :: "hook_ptr option"
  command :: "string option"
  pid :: int
  detached :: int
  start_time :: int
  end_time :: int
  output_to_buffer :: int
  buffer_full_name :: "string option"
  line_numbers :: int
  color :: int
  display_rc :: int
  out_size :: int
  out :: "string option"
  err_size :: int
  err :: "string option"
  return_code :: int
  pipe_command :: "string option"
  hsignal :: "string option"
  prev_cmd :: "addr option"
  next_cmd :: "addr option"

definition EXEC_COLOR_ANSI :: int where "EXEC_COLOR_ANSI = 0"
definition EXEC_COLOR_DECODE :: int where "EXEC_COLOR_DECODE = 1"
definition EXEC_COLOR_STRIP :: int where "EXEC_COLOR_STRIP = 2"

text \<open>
  What the plugin takes from the WeeChat core and from the C library. The macros
  \<^verbatim>\<open>WEECHAT_HOOK_PROCESS_ERROR\<close> and \<^verbatim>\<open>EXEC_PLUGIN_NAME\<close> are defined in headers
  outside this file, so they are parameters here, as are the allocator (\<open>alloc n\<close>
  tells whether a request for \<open>n\<close> bytes succeeds), the clock, the configuration option
  \<^verbatim>\<open>exec.command.purge_delay\<close> and the core functions for buffers, colors and strings.
\<close>

record host =
  HOOK_PROCESS_ERROR :: int
  PLUGIN_NAME :: string
  debug :: int
  time_now :: int
  alloc :: "int \<Rightarrow> bool"
  command_purge_delay :: int
  buffer_search :: "string \<Rightarrow> string option \<Rightarrow> gui_buffer option"
  hook_modifier_exec :: "string \<Rightarrow> string \<Rightarrow> string \<Rightarrow> string option"
  string_replace :: "string \<Rightarrow> string \<Rightarrow> string \<Rightarrow> string option"
  hashtable_new :: bool

text \<open>The calls into the core that leave a trace, in the order they are made.\<close>

datatype event =
    Command "gui_buffer option" string
  | Printf_tags "gui_buffer option" string string
  | Printf "gui_buffer option" string
  | Hsignal_send string "(string \<times> string option) list"
  | Unhook hook_ptr

text \<open>
  A timer requested with \<^verbatim>\<open>weechat_hook_timer\<close>; its callback is always
  \<^verbatim>\<open>exec_timer_delete_cb\<close>, with \<open>data\<close> the executed command.
\<close>

record timer =
  interval :: int
  align_second :: int
  max_calls :: int
  data :: addr

text \<open>
  The global variables \<^verbatim>\<open>exec_cmds\<close>, \<^verbatim>\<open>last_exec_cmd\<close> and
  \<^verbatim>\<open>exec_cmds_count\<close>, the store of live structures, and what has been asked of
  the core so far.
\<close>

record state =
  heap :: "addr \<Rightarrow> exec_cmd option"
  exec_cmds :: "addr option"
  last_exec_cmd :: "addr option"
  exec_cmds_count :: int
  timers :: "timer list"
  events :: "event list"

definition exec_init :: state where
  "exec_init = \<lparr>heap = (\<lambda>_. None), exec_cmds = None, last_exec_cmd = None,
     exec_cmds_count = 0, timers = [], events = []\<rparr>"

text \<open>Writing through a pointer: a fault when the pointer is not live.\<close>

definition upd :: "addr \<Rightarrow> (exec_cmd \<Rightarrow> exec_cmd) \<Rightarrow> state \<Rightarrow> state option" where
  "upd a f s = (case heap s a of None \<Rightarrow> None
     | Some c \<Rightarrow> Some (s\<lparr>heap := (heap s)(a \<mapsto> f c)\<rparr>))"

subsection \<open>\<^verbatim>\<open>exec_add\<close>\<close>

text \<open>
  The loop of \<^verbatim>\<open>exec_add\<close> that looks for a gap between the numbers of two
  neighbours; \<open>n\<close> is the number chosen before the loop.
\<close>

partial_function (option) exec_add_loop ::
  "(addr \<Rightarrow> exec_cmd option) \<Rightarrow> addr option \<Rightarrow> int \<Rightarrow> int option" where
  [code]: "exec_add_loop h ptr_exec_cmd n =
     (case ptr_exec_cmd of None \<Rightarrow> Some n
      | Some a \<Rightarrow>
          (case h a of None \<Rightarrow> None
           | Some c \<Rightarrow>
               (case prev_cmd c of None \<Rightarrow> exec_add_loop h (next_cmd c) n
                | Some q \<Rightarrow>
                    (case h q of None \<Rightarrow> None
                     | Some pc \<Rightarrow>
                         if number c > int32 (number pc + 1)
                         then Some (int32 (number pc + 1))
                         else exec_add_loop h (next_cmd c) n))))"

text \<open>
  \<open>exec_add hst m junk s\<close>: \<open>m\<close> is what \<^verbatim>\<open>malloc\<close> returns (\<open>None\<close> when it
  fails, otherwise an address that is not live), \<open>junk\<close> the value that the field
  \<^verbatim>\<open>color\<close>, which \<^verbatim>\<open>exec_add\<close> does not initialise, happens to hold. The result
  is the new state and the pointer returned.
\<close>

definition exec_add :: "host \<Rightarrow> addr option \<Rightarrow> int \<Rightarrow> state \<Rightarrow> (state \<times> addr option) option" where
  "exec_add hst m junk s = do {
     n0 \<leftarrow> (case last_exec_cmd s of None \<Rightarrow> Some 0
            | Some l \<Rightarrow> (case heap s l of None \<Rightarrow> None
                         | Some c \<Rightarrow> Some (int32 (number c + 1))));
     n \<leftarrow> exec_add_loop (heap s) (exec_cmds s) n0;
     (case m of None \<Rightarrow> Some (s, None)
      | Some new_exec_cmd \<Rightarrow> do {
          let s1 = s\<lparr>heap := (heap s)(new_exec_cmd \<mapsto>
             \<lparr>number = n, name = None, hook = None, command = None, pid = 0,
              detached = 0, start_time = time_now hst, end_time = 0,
              output_to_buffer = 0, buffer_full_name = None, line_numbers = 0,
              color = junk, display_rc = 0, out_size = 0, out = None,
              err_size = 0, err = None, return_code = - 1, pipe_command = None,
              hsignal = None, prev_cmd = last_exec_cmd s, next_cmd = None\<rparr>)\<rparr>;
          s2 \<leftarrow> (if exec_cmds s1 = None then Some (s1\<lparr>exec_cmds := Some new_exec_cmd\<rparr>)
                 else (case last_exec_cmd s1 of None \<Rightarrow> None
                       | Some l \<Rightarrow> upd l (\<lambda>c. c\<lparr>next_cmd := Some new_exec_cmd\<rparr>) s1));
          Some (s2\<lparr>last_exec_cmd := Some new_exec_cmd,
                   exec_cmds_count := int32 (exec_cmds_count s2 + 1)\<rparr>, Some new_exec_cmd)
        })
   }"

subsection \<open>\<^verbatim>\<open>exec_free\<close>\<close>

text \<open>
  The structure is unlinked, its hook is removed if it still has one, and its memory is
  given back: the address is no longer live.
\<close>

definition exec_free :: "addr option \<Rightarrow> state \<Rightarrow> state option" where
  "exec_free p s =
     (case p of None \<Rightarrow> Some s
      | Some exec_cmd \<Rightarrow> do {
          c \<leftarrow> heap s exec_cmd;
          s1 \<leftarrow> (case prev_cmd c of None \<Rightarrow> Some s
                 | Some q \<Rightarrow> upd q (\<lambda>x. x\<lparr>next_cmd := next_cmd c\<rparr>) s);
          c1 \<leftarrow> heap s1 exec_cmd;
          s2 \<leftarrow> (case next_cmd c1 of None \<Rightarrow> Some s1
                 | Some q \<Rightarrow> upd q (\<lambda>x. x\<lparr>prev_cmd := prev_cmd c1\<rparr>) s1);
          c2 \<leftarrow> heap s2 exec_cmd;
          let s3 = (if exec_cmds s2 = Some exec_cmd then s2\<lparr>exec_cmds := next_cmd c2\<rparr> else s2);
          let s4 = (if last_exec_cmd s3 = Some exec_cmd then s3\<lparr>last_exec_cmd := prev_cmd c2\<rparr> else s3);
          let s5 = (case hook c2 of None \<Rightarrow> s4
                    | Some k \<Rightarrow> s4\<lparr>events := events s4 @ [Unhook k]\<rparr>);
          Some (s5\<lparr>heap := (heap s5)(exec_cmd := None),
                   exec_cmds_count := int32 (exec_cmds_count s5 - 1)\<rparr>)
        })"

subsection \<open>\<^verbatim>\<open>exec_search_by_id\<close>\<close>

text \<open>
  \<^verbatim>\<open>strtol (id, &error, 10)\<close> in the C locale, with a 64-bit \<^verbatim>\<open>long\<close>: white space
  is skipped, one sign is read, then the decimal digits. The result is the value, clamped
  to the range of \<^verbatim>\<open>long\<close>, and the rest of the string, where \<^verbatim>\<open>error\<close> points;
  without a digit nothing is converted and \<^verbatim>\<open>error\<close> points to the start.
\<close>

definition isspace :: "char \<Rightarrow> bool" where
  "isspace ch = (ch \<in> set [CHR '' '', CHR 0x09, CHR 0x0A, CHR 0x0B, CHR 0x0C, CHR 0x0D])"

definition isdigit :: "char \<Rightarrow> bool" where
  "isdigit ch = (ch \<in> set ''0123456789'')"

definition dec_value :: "string \<Rightarrow> int" where
  "dec_value ds = foldl (\<lambda>v ch. 10 * v + (int (of_char ch) - 48)) 0 ds"

definition strtol :: "string \<Rightarrow> int \<times> string" where
  "strtol nptr =
     (let s1 = dropWhile isspace nptr;
          neg = (s1 \<noteq> [] \<and> hd s1 = CHR ''-'');
          s2 = (if s1 \<noteq> [] \<and> (hd s1 = CHR ''-'' \<or> hd s1 = CHR ''+'') then tl s1 else s1);
          ds = takeWhile isdigit s2
      in if ds = [] then (0, nptr)
         else (max LONG_MIN (min LONG_MAX (if neg then - dec_value ds else dec_value ds)),
               dropWhile isdigit s2))"

text \<open>
  The loop over the list: at each node the number is tested first, then the name.
  \<open>n\<close> is the \<^verbatim>\<open>long\<close> that was parsed, or \<open>-1\<close>; the comparison is made after the
  conversion \<^verbatim>\<open>(int)number\<close>.
\<close>

partial_function (option) exec_search_loop ::
  "(addr \<Rightarrow> exec_cmd option) \<Rightarrow> addr option \<Rightarrow> int \<Rightarrow> string \<Rightarrow> addr option option" where
  [code]: "exec_search_loop h ptr_exec_cmd n id_str =
     (case ptr_exec_cmd of None \<Rightarrow> Some None
      | Some a \<Rightarrow>
          (case h a of None \<Rightarrow> None
           | Some c \<Rightarrow>
               if n \<ge> 0 \<and> number c = int32 n then Some (Some a)
               else if name c = Some id_str then Some (Some a)
               else exec_search_loop h (next_cmd c) n id_str))"

definition parse_id :: "string \<Rightarrow> int" where
  "parse_id id_str = (case strtol id_str of (v, rest) \<Rightarrow> if rest \<noteq> [] then - 1 else v)"

definition exec_search_by_id :: "string \<Rightarrow> state \<Rightarrow> addr option option" where
  "exec_search_by_id id_str s = exec_search_loop (heap s) (exec_cmds s) (parse_id id_str) id_str"

subsection \<open>\<^verbatim>\<open>exec_timer_delete_cb\<close>\<close>

datatype rc = WEECHAT_RC_OK | WEECHAT_RC_ERROR

partial_function (option) exec_timer_loop ::
  "(addr \<Rightarrow> exec_cmd option) \<Rightarrow> addr option \<Rightarrow> addr \<Rightarrow> bool option" where
  [code]: "exec_timer_loop h ptr_exec_cmd exec_cmd =
     (case ptr_exec_cmd of None \<Rightarrow> Some False
      | Some a \<Rightarrow>
          if a = exec_cmd then Some True
          else (case h a of None \<Rightarrow> None
                | Some c \<Rightarrow> exec_timer_loop h (next_cmd c) exec_cmd))"

definition exec_timer_delete_cb :: "addr option \<Rightarrow> int \<Rightarrow> state \<Rightarrow> (state \<times> rc) option" where
  "exec_timer_delete_cb dat remaining_calls s =
     (case dat of None \<Rightarrow> Some (s, WEECHAT_RC_OK)
      | Some exec_cmd \<Rightarrow> do {
          found \<leftarrow> exec_timer_loop (heap s) (exec_cmds s) exec_cmd;
          s1 \<leftarrow> (if found then exec_free (Some exec_cmd) s else Some s);
          Some (s1, WEECHAT_RC_OK)
        })"

subsection \<open>\<^verbatim>\<open>exec_concat_output\<close>\<close>

text \<open>
  The pair is \<^verbatim>\<open>(*size, *output)\<close>. The bytes of \<open>text\<close> and its terminating zero
  are copied at offset \<^verbatim>\<open>*size\<close>; the structure keeps \<^verbatim>\<open>*size\<close> equal to the
  length of \<^verbatim>\<open>*output\<close>, so the string that results is the old one followed by
  \<open>text\<close>. When \<^verbatim>\<open>realloc\<close> fails nothing changes.
\<close>

definition exec_concat_output :: "host \<Rightarrow> int \<times> string option \<Rightarrow> string \<Rightarrow> int \<times> string option" where
  "exec_concat_output hst so text =
     (let len = int32 (int (length text));
          new_size = int32 (fst so + len)
      in if \<not> alloc hst (int32 (new_size + 1)) then so
         else (new_size,
               Some (take (nat (fst so)) (case snd so of None \<Rightarrow> [] | Some old \<Rightarrow> old) @ text)))"

subsection \<open>\<^verbatim>\<open>exec_decode_color\<close>\<close>

definition exec_decode_color :: "host \<Rightarrow> exec_cmd \<Rightarrow> string option \<Rightarrow> string option" where
  "exec_decode_color hst c str =
     (case str of None \<Rightarrow> None
      | Some s \<Rightarrow>
          if color c = EXEC_COLOR_ANSI
          then (if alloc hst (int (length s) + 1) then Some s else None)
          else hook_modifier_exec hst
                 (if output_to_buffer c \<noteq> 0 \<or> pipe_command c \<noteq> None
                  then ''irc_color_decode_ansi'' else ''color_decode_ansi'')
                 (if color c = EXEC_COLOR_DECODE then ''1'' else ''0'')
                 s)"

subsection \<open>Formatting\<close>

text \<open>
  \<^verbatim>\<open>%d\<close> of \<^verbatim>\<open>printf\<close>, \<^verbatim>\<open>snprintf\<close> into a buffer of \<open>n\<close> bytes (the text is
  cut after \<open>n - 1\<close> bytes), \<^verbatim>\<open>%s\<close> (the C library prints a null pointer as
  \<^verbatim>\<open>(null)\<close>) and \<^verbatim>\<open>strstr (haystack, needle) != NULL\<close>.
\<close>

fun dec_digits :: "nat \<Rightarrow> string" where
  "dec_digits n = (if n < 10 then [''0123456789'' ! n]
                   else dec_digits (n div 10) @ [''0123456789'' ! (n mod 10)])"

declare dec_digits.simps [simp del]

definition show_int :: "int \<Rightarrow> string" where
  "show_int i = (if i < 0 then CHR ''-'' # dec_digits (nat (- i)) else dec_digits (nat i))"

definition snprintf :: "int \<Rightarrow> string \<Rightarrow> string" where
  "snprintf n text = take (nat (n - 1)) text"

definition show_str :: "string option \<Rightarrow> string" where
  "show_str p = (case p of None \<Rightarrow> ''(null)'' | Some text \<Rightarrow> text)"

fun strstr :: "string \<Rightarrow> string \<Rightarrow> bool" where
  "strstr [] needle = (needle = [])"
| "strstr (ch # rest) needle =
     (take (length needle) (ch # rest) = needle \<or> strstr rest needle)"

subsection \<open>\<^verbatim>\<open>exec_display_output\<close>\<close>

text \<open>
  What the body of the loop sends to the core for one line, already through
  \<^verbatim>\<open>exec_decode_color\<close>: a command built from the pipe command, a command in the
  buffer, or a line printed with tags.
\<close>

definition exec_display_line ::
  "host \<Rightarrow> exec_cmd \<Rightarrow> gui_buffer option \<Rightarrow> int \<Rightarrow> int \<Rightarrow> string \<Rightarrow> event list" where
  "exec_display_line hst c buffer out_flag line_nb line =
     (case pipe_command c of
        Some pipe \<Rightarrow>
          if strstr pipe ''$line''
          then (case string_replace hst pipe ''$line'' line of
                  None \<Rightarrow> []
                | Some line2 \<Rightarrow> [Command buffer line2])
          else (let len = int32 (int32 (int32 (int (length pipe) + 1) + int (length line)) + 1)
                in if alloc hst len
                   then [Command buffer (snprintf len (pipe @ '' '' @ line))]
                   else [])
      | None \<Rightarrow>
          if output_to_buffer c \<noteq> 0
          then (if line_numbers c \<noteq> 0
                then (let len = int32 (int32 (32 + int (length line)) + 1)
                      in if alloc hst len
                         then [Command buffer (snprintf len (show_int line_nb @ ''. '' @ line))]
                         else [])
                else [Command buffer (if line \<noteq> [] then line else '' '')])
          else (let str_number = snprintf 32 (show_int (number c));
                    str_tags = snprintf 1024
                      (''exec_'' @ (if out_flag \<noteq> 0 then ''stdout'' else ''stderr'')
                       @ '',exec_cmd_''
                       @ (case name c of Some nm \<Rightarrow> nm | None \<Rightarrow> str_number));
                    str_number2 = snprintf 32 (show_int line_nb @ [CHR 0x09])
                in [Printf_tags buffer str_tags
                      ((if line_numbers c \<noteq> 0 then str_number2 else [CHR '' '', CHR 0x09])
                       @ line)]))"

text \<open>
  The loop: \<open>ptr_line\<close> is the text that remains. It stops at an empty rest (the
  "last empty line"), when a copy of the line cannot be made, and after a line that no
  line feed follows.
\<close>

function exec_display_loop ::
  "host \<Rightarrow> exec_cmd \<Rightarrow> gui_buffer option \<Rightarrow> int \<Rightarrow> string \<Rightarrow> int \<Rightarrow> event list" where
  "exec_display_loop hst c buffer out_flag ptr_line line_nb =
     (if ptr_line = [] then []
      else if \<not> alloc hst (int (length (takeWhile (\<lambda>ch. ch \<noteq> CHR 0x0A) ptr_line)) + 1) then []
      else (case exec_decode_color hst c (Some (takeWhile (\<lambda>ch. ch \<noteq> CHR 0x0A) ptr_line)) of
              None \<Rightarrow> []
            | Some line \<Rightarrow>
                exec_display_line hst c buffer out_flag line_nb line
                @ (if CHR 0x0A \<in> set ptr_line
                   then exec_display_loop hst c buffer out_flag
                          (tl (dropWhile (\<lambda>ch. ch \<noteq> CHR 0x0A) ptr_line)) (int32 (line_nb + 1))
                   else [])))"
  by pat_completeness auto
termination
proof (relation "measure (\<lambda>(hst, c, buffer, out_flag, ptr_line, line_nb). length ptr_line)")
  show "wf (measure (\<lambda>(hst, c, buffer, out_flag, ptr_line, line_nb). length ptr_line))"
    by simp
next
  fix ptr_line :: string
  assume "ptr_line \<noteq> []"
  then have "length (tl (dropWhile (\<lambda>ch. ch \<noteq> CHR 0x0A) ptr_line)) < length ptr_line"
    using length_dropWhile_le [of "\<lambda>ch. ch \<noteq> CHR 0x0A" ptr_line]
    by (cases ptr_line) (simp_all add: less_Suc_eq_le le_diff_conv)
  then show "\<And>hst c buffer out_flag line_nb.
      ((hst, c, buffer, out_flag, tl (dropWhile (\<lambda>ch. ch \<noteq> CHR 0x0A) ptr_line), int32 (line_nb + 1)),
       (hst, c, buffer, out_flag, ptr_line, line_nb))
      \<in> measure (\<lambda>(hst, c, buffer, out_flag, ptr_line, line_nb). length ptr_line)"
    by simp
qed

declare exec_display_loop.simps [simp del]

definition exec_display_output ::
  "host \<Rightarrow> exec_cmd \<Rightarrow> gui_buffer option \<Rightarrow> int \<Rightarrow> event list" where
  "exec_display_output hst c buffer out_flag =
     (case (if out_flag \<noteq> 0 then out c else err c) of
        None \<Rightarrow> []
      | Some ptr_output \<Rightarrow>
          if output_to_buffer c \<noteq> 0 \<and> pipe_command c = None \<and> buffer = None then []
          else exec_display_loop hst c buffer out_flag ptr_output 1)"

subsection \<open>\<^verbatim>\<open>exec_end_command\<close>\<close>

text \<open>
  The events of the first half of \<^verbatim>\<open>exec_end_command\<close>: the hsignal with its
  hashtable, or the two displays and the line about the return code (shown here as the
  untranslated message).
\<close>

definition exec_end_events :: "host \<Rightarrow> exec_cmd \<Rightarrow> int \<Rightarrow> event list" where
  "exec_end_events hst c return_code_arg =
     (case hsignal c of
        Some sig \<Rightarrow>
          if hashtable_new hst
          then [Hsignal_send sig
                  [(''command'', command c),
                   (''number'', Some (snprintf 32 (show_int (number c)))),
                   (''name'', name c),
                   (''out'', exec_decode_color hst c (out c)),
                   (''err'', exec_decode_color hst c (err c))]]
          else []
      | None \<Rightarrow>
          (let ptr_buffer = buffer_search hst ''=='' (buffer_full_name c)
           in exec_display_output hst c ptr_buffer 1
              @ exec_display_output hst c ptr_buffer 0
              @ (if display_rc c \<noteq> 0 \<and> detached c = 0 \<and> output_to_buffer c = 0
                    \<and> pipe_command c = None
                 then (if return_code_arg \<ge> 0
                       then [Printf_tags ptr_buffer ''exec_rc''
                               (PLUGIN_NAME hst @ '': end of command '' @ show_int (number c)
                                @ '' ('' @ [CHR 0x22] @ show_str (command c) @ [CHR 0x22]
                                @ ''), return code: '' @ show_int return_code_arg)]
                       else [Printf_tags ptr_buffer ''exec_rc''
                               (PLUGIN_NAME hst @ '': unexpected end of command ''
                                @ show_int (number c)
                                @ '' ('' @ [CHR 0x22] @ show_str (command c) @ [CHR 0x22]
                                @ '')'')])
                 else [])))"

text \<open>
  Then the fields are reset and, unless the purge delay is negative, a timer is requested
  that calls \<^verbatim>\<open>exec_timer_delete_cb\<close> once. The interval is computed in
  \<^verbatim>\<open>int\<close> before it is passed as a \<^verbatim>\<open>long\<close>.
\<close>

definition exec_end_command :: "host \<Rightarrow> addr \<Rightarrow> int \<Rightarrow> state \<Rightarrow> state option" where
  "exec_end_command hst exec_cmd return_code_arg s = do {
     c \<leftarrow> heap s exec_cmd;
     let s1 = s\<lparr>events := events s @ exec_end_events hst c return_code_arg\<rparr>;
     s2 \<leftarrow> upd exec_cmd (\<lambda>x. x\<lparr>hook := None, pid := 0, end_time := time_now hst,
                                 return_code := return_code_arg\<rparr>) s1;
     Some (if command_purge_delay hst \<ge> 0
           then s2\<lparr>timers := timers s2 @
                  [\<lparr>interval = int32 (1 + int32 (1000 * command_purge_delay hst)),
                    align_second = 0, max_calls = 1, data = exec_cmd\<rparr>]\<rparr>
           else s2)
   }"

subsection \<open>\<^verbatim>\<open>exec_process_cb\<close>\<close>

text \<open>
  The two calls \<^verbatim>\<open>exec_concat_output (&ptr_exec_cmd->out_size, &ptr_exec_cmd->out, out)\<close>
  and the same for \<^verbatim>\<open>err\<close>, as updates of the structure.
\<close>

definition concat_stdout :: "host \<Rightarrow> string \<Rightarrow> exec_cmd \<Rightarrow> exec_cmd" where
  "concat_stdout hst text x =
     (case exec_concat_output hst (out_size x, out x) text of
        (sz, buf) \<Rightarrow> x\<lparr>out_size := sz, out := buf\<rparr>)"

definition concat_stderr :: "host \<Rightarrow> string \<Rightarrow> exec_cmd \<Rightarrow> exec_cmd" where
  "concat_stderr hst text x =
     (case exec_concat_output hst (err_size x, err x) text of
        (sz, buf) \<Rightarrow> x\<lparr>err_size := sz, err := buf\<rparr>)"

text \<open>The message printed when the debug level of the plugin is at least 2.\<close>

definition process_cb_debug ::
  "host \<Rightarrow> exec_cmd \<Rightarrow> int \<Rightarrow> string option \<Rightarrow> string option \<Rightarrow> event" where
  "process_cb_debug hst c return_code_arg out_arg err_arg =
     Printf None
       (PLUGIN_NAME hst @ '': process_cb: command='' @ [CHR 0x22]
        @ show_str (command c) @ [CHR 0x22] @ '', rc='' @ show_int return_code_arg
        @ '', out: ''
        @ show_int (case out_arg of None \<Rightarrow> 0 | Some t \<Rightarrow> int32 (int (length t)))
        @ '' bytes, err: ''
        @ show_int (case err_arg of None \<Rightarrow> 0 | Some t \<Rightarrow> int32 (int (length t)))
        @ '' bytes'')"

definition exec_process_cb ::
  "host \<Rightarrow> addr option \<Rightarrow> string option \<Rightarrow> int \<Rightarrow> string option \<Rightarrow> string option
     \<Rightarrow> state \<Rightarrow> (state \<times> rc) option" where
  "exec_process_cb hst dat command_arg return_code_arg out_arg err_arg s =
     (case dat of None \<Rightarrow> Some (s, WEECHAT_RC_ERROR)
      | Some ptr_exec_cmd \<Rightarrow> do {
          s1 \<leftarrow> (if debug hst \<ge> 2
                 then do {
                   c \<leftarrow> heap s ptr_exec_cmd;
                   Some (s\<lparr>events := events s @
                     [process_cb_debug hst c return_code_arg out_arg err_arg]\<rparr>)
                 }
                 else Some s);
          if return_code_arg = HOOK_PROCESS_ERROR hst
          then do {
            s2 \<leftarrow> exec_end_command hst ptr_exec_cmd (- 1) s1;
            Some (s2, WEECHAT_RC_OK)
          }
          else do {
            s2 \<leftarrow> (case out_arg of None \<Rightarrow> Some s1
                   | Some text \<Rightarrow> upd ptr_exec_cmd (concat_stdout hst text) s1);
            s3 \<leftarrow> (case err_arg of None \<Rightarrow> Some s2
                   | Some text \<Rightarrow> upd ptr_exec_cmd (concat_stderr hst text) s2);
            s4 \<leftarrow> (if return_code_arg \<ge> 0
                   then exec_end_command hst ptr_exec_cmd return_code_arg s3
                   else Some s3);
            Some (s4, WEECHAT_RC_OK)
          }
        })"

subsection \<open>The registry as a list\<close>

text \<open>
  \<open>dseg h pr p xs lst nx\<close>: following \<^verbatim>\<open>next_cmd\<close> from \<open>p\<close> visits exactly the
  addresses \<open>xs\<close>, all live, and arrives at \<open>nx\<close>; the \<^verbatim>\<open>prev_cmd\<close> of each node is
  the node before it (\<open>pr\<close> for the first), and \<open>lst\<close> is the last node visited
  (\<open>pr\<close> when there is none).
\<close>

primrec dseg ::
  "(addr \<Rightarrow> exec_cmd option) \<Rightarrow> addr option \<Rightarrow> addr option \<Rightarrow> addr list
     \<Rightarrow> addr option \<Rightarrow> addr option \<Rightarrow> bool" where
  "dseg h pr p [] lst nx = (p = nx \<and> lst = pr)"
| "dseg h pr p (a # as) lst nx =
     (p = Some a \<and>
      (case h a of None \<Rightarrow> False
       | Some c \<Rightarrow> prev_cmd c = pr \<and> dseg h (Some a) (next_cmd c) as lst nx))"

text \<open>
  The list is consistent when \<^verbatim>\<open>exec_cmds\<close>, \<^verbatim>\<open>last_exec_cmd\<close> and the links
  of the nodes describe one sequence \<open>xs\<close> of distinct nodes, in both directions.
\<close>

definition registry :: "state \<Rightarrow> addr list \<Rightarrow> bool" where
  "registry s xs =
     (distinct xs \<and> dseg (heap s) None (exec_cmds s) xs (last_exec_cmd s) None)"

text \<open>The two traversals: along \<^verbatim>\<open>next_cmd\<close> and along \<^verbatim>\<open>prev_cmd\<close>.\<close>

partial_function (option) walk_next ::
  "(addr \<Rightarrow> exec_cmd option) \<Rightarrow> addr option \<Rightarrow> addr list option" where
  [code]: "walk_next h p =
     (case p of None \<Rightarrow> Some []
      | Some a \<Rightarrow>
          (case h a of None \<Rightarrow> None
           | Some c \<Rightarrow> do { rest \<leftarrow> walk_next h (next_cmd c); Some (a # rest) }))"

partial_function (option) walk_prev ::
  "(addr \<Rightarrow> exec_cmd option) \<Rightarrow> addr option \<Rightarrow> addr list option" where
  [code]: "walk_prev h p =
     (case p of None \<Rightarrow> Some []
      | Some a \<Rightarrow>
          (case h a of None \<Rightarrow> None
           | Some c \<Rightarrow> do { rest \<leftarrow> walk_prev h (prev_cmd c); Some (a # rest) }))"

text \<open>
  The states that creations and removals lead to. \<^verbatim>\<open>malloc\<close> returns a null pointer
  or an address that is not live; \<^verbatim>\<open>exec_free\<close> is called with a null pointer or
  with a command that is live.
\<close>

inductive reachable :: "state \<Rightarrow> bool" where
  init: "reachable exec_init"
| add: "reachable s \<Longrightarrow> (case m of None \<Rightarrow> True | Some a \<Rightarrow> heap s a = None)
        \<Longrightarrow> exec_add hst m junk s = Some (s', r) \<Longrightarrow> reachable s'"
| free: "reachable s \<Longrightarrow> (case p of None \<Rightarrow> True | Some a \<Rightarrow> heap s a \<noteq> None)
        \<Longrightarrow> exec_free p s = Some s' \<Longrightarrow> reachable s'"

text \<open>The test that \<^verbatim>\<open>exec_search_by_id\<close> makes at one node.\<close>

definition id_matches :: "int \<Rightarrow> string \<Rightarrow> exec_cmd \<Rightarrow> bool" where
  "id_matches n id_str c = ((n \<ge> 0 \<and> number c = int32 n) \<or> name c = Some id_str)"

subsection \<open>The lines of a text, as the specification words them\<close>

text \<open>
  The text is split at every line feed; the last fragment is dropped when it is empty,
  every other fragment is a line.
\<close>

fun split_lf :: "string \<Rightarrow> string list" where
  "split_lf [] = [[]]"
| "split_lf (ch # rest) =
     (if ch = CHR 0x0A then [] # split_lf rest
      else (case split_lf rest of [] \<Rightarrow> [[ch]] | l # ls \<Rightarrow> (ch # l) # ls))"

definition spec_lines :: "string \<Rightarrow> string list" where
  "spec_lines text = (if last (split_lf text) = [] then butlast (split_lf text) else split_lf text)"

subsection \<open>Example states\<close>

text \<open>
  A host whose allocator never fails, that resolves no buffer and leaves colors as they
  are, with the error code \<open>-2\<close> and a purge delay of one second.
\<close>

definition plain_host :: host where
  "plain_host = \<lparr>HOOK_PROCESS_ERROR = - 2, PLUGIN_NAME = ''exec'', debug = 0, time_now = 0,
     alloc = (\<lambda>_. True), command_purge_delay = 1, buffer_search = (\<lambda>_ _. None),
     hook_modifier_exec = (\<lambda>_ _ t. Some t), string_replace = (\<lambda>_ _ _. None),
     hashtable_new = True\<rparr>"

text \<open>The state after a call, for building examples (the state itself after a fault).\<close>

definition then_add :: "addr \<Rightarrow> state \<Rightarrow> state" where
  "then_add a s = (case exec_add plain_host (Some a) 0 s of None \<Rightarrow> s | Some (s', _) \<Rightarrow> s')"

definition then_free :: "addr \<Rightarrow> state \<Rightarrow> state" where
  "then_free a s = (case exec_free (Some a) s of None \<Rightarrow> s | Some s' \<Rightarrow> s')"

definition then_process_cb :: "addr \<Rightarrow> int \<Rightarrow> string option \<Rightarrow> string option \<Rightarrow> state \<Rightarrow> state" where
  "then_process_cb a return_code_arg out_arg err_arg s =
     (case exec_process_cb plain_host (Some a) None return_code_arg out_arg err_arg s of
        None \<Rightarrow> s | Some (s', _) \<Rightarrow> s')"

text \<open>
  The name of a command is set by the caller of \<^verbatim>\<open>exec_add\<close> (the \<^verbatim>\<open>/exec\<close>
  command, outside this file), as are its other options; the examples set them directly.
\<close>

definition then_set :: "addr \<Rightarrow> (exec_cmd \<Rightarrow> exec_cmd) \<Rightarrow> state \<Rightarrow> state" where
  "then_set a f s = (case upd a f s of None \<Rightarrow> s | Some s' \<Rightarrow> s')"

text \<open>Jobs A, B and C at the addresses 1, 2 and 3; then B removed.\<close>

definition state_abc :: state where
  "state_abc = then_add 3 (then_add 2 (then_add 1 exec_init))"

definition state_ac :: state where
  "state_ac = then_free 2 state_abc"

text \<open>Two jobs: the first, with number 0, is named \<open>1\<close>; the second has number 1.\<close>

definition state_named :: state where
  "state_named = then_add 2 (then_set 1 (\<lambda>c. c\<lparr>name := Some ''1''\<rparr>) (then_add 1 exec_init))"


text \<open>
  A job whose output goes to a buffer as commands, with line numbers: \<open>out\<close> ends with
  a line feed, \<open>err\<close> does not.
\<close>

definition job_two_lines :: exec_cmd where
  "job_two_lines = \<lparr>number = 0, name = None, hook = None, command = Some ''printf'', pid = 0,
     detached = 0, start_time = 0, end_time = 0, output_to_buffer = 1,
     buffer_full_name = Some ''irc.server.#chan'', line_numbers = 1, color = EXEC_COLOR_ANSI,
     display_rc = 0, out_size = 12, out = Some ''line1\<newline>line2\<newline>'', err_size = 11,
     err = Some ''line1\<newline>line2'', return_code = - 1, pipe_command = None, hsignal = None,
     prev_cmd = None, next_cmd = None\<rparr>"

text \<open>The same job with a pipe command: its lines go to \<open>/say\<close>.\<close>

definition job_piped :: exec_cmd where
  "job_piped = job_two_lines\<lparr>pipe_command := Some ''/say''\<rparr>"

section \<open>Properties\<close>

subsection \<open>Segments of the list\<close>

lemma dseg_append:
  "dseg h pr p (as @ bs) lst nx \<longleftrightarrow> (\<exists>m q. dseg h pr p as m q \<and> dseg h m q bs lst nx)"
  by (induction as arbitrary: pr p) (auto split: option.splits)

text \<open>Only the links of the nodes of the segment matter.\<close>

lemma dseg_links:
  "(\<forall>a\<in>set xs. map_option (\<lambda>c. (prev_cmd c, next_cmd c)) (h' a)
       = map_option (\<lambda>c. (prev_cmd c, next_cmd c)) (h a))
   \<Longrightarrow> dseg h' pr p xs lst nx = dseg h pr p xs lst nx"
proof (induction xs arbitrary: pr p)
  case Nil
  show ?case by simp
next
  case (Cons a xs)
  from Cons.prems have rest: "\<forall>b\<in>set xs. map_option (\<lambda>c. (prev_cmd c, next_cmd c)) (h' b)
       = map_option (\<lambda>c. (prev_cmd c, next_cmd c)) (h b)"
    and here: "map_option (\<lambda>c. (prev_cmd c, next_cmd c)) (h' a)
       = map_option (\<lambda>c. (prev_cmd c, next_cmd c)) (h a)"
    by simp_all
  from here show ?case
    by (cases "h a"; cases "h' a") (simp_all add: Cons.IH [OF rest])
qed

lemma dseg_frame:
  "(\<forall>a\<in>set xs. h' a = h a) \<Longrightarrow> dseg h' pr p xs lst nx = dseg h pr p xs lst nx"
  by (rule dseg_links) simp

lemma dseg_upd_other [simp]:
  "a \<notin> set xs \<Longrightarrow> dseg (h(a := v)) pr p xs lst nx = dseg h pr p xs lst nx"
  by (rule dseg_frame) simp

lemma dseg_last: "dseg h pr p xs lst nx \<Longrightarrow> lst = (if xs = [] then pr else Some (last xs))"
  by (induction xs arbitrary: pr p) (auto split: option.splits)

lemma dseg_hd: "dseg h pr p xs lst nx \<Longrightarrow> p = (if xs = [] then nx else Some (hd xs))"
  by (cases xs) auto

lemma dseg_live: "dseg h pr p xs lst nx \<Longrightarrow> a \<in> set xs \<Longrightarrow> h a \<noteq> None"
  by (induction xs arbitrary: pr p) (auto split: option.splits)

lemma dseg_set_next:
  "dseg h pr p (ys @ [l]) lst nx \<Longrightarrow> l \<notin> set ys \<Longrightarrow> h l = Some c \<Longrightarrow>
   dseg (h(l \<mapsto> c\<lparr>next_cmd := nx'\<rparr>)) pr p (ys @ [l]) lst nx'"
  by (auto simp: dseg_append)

lemma dseg_set_prev:
  "dseg h pr p (b # bs) lst nx \<Longrightarrow> b \<notin> set bs \<Longrightarrow> h b = Some c \<Longrightarrow>
   dseg (h(b \<mapsto> c\<lparr>prev_cmd := pr'\<rparr>)) pr' p (b # bs) lst nx"
  by auto

subsection \<open>The loops on a consistent list\<close>

lemma walk_next_dseg: "dseg h pr p xs lst None \<Longrightarrow> walk_next h p = Some xs"
proof (induction xs arbitrary: pr p)
  case Nil
  then show ?case by (simp add: walk_next.simps)
next
  case (Cons a xs)
  then show ?case by (subst walk_next.simps) (auto split: option.splits)
qed

lemma walk_prev_dseg: "dseg h None p xs lst nx \<Longrightarrow> walk_prev h lst = Some (rev xs)"
proof (induction xs arbitrary: lst nx rule: rev_induct)
  case Nil
  then show ?case by (simp add: walk_prev.simps)
next
  case (snoc a xs)
  then show ?case by (subst walk_prev.simps) (auto simp: dseg_append split: option.splits)
qed

lemma exec_add_loop_returns:
  "dseg h pr p xs lst None \<Longrightarrow> (case pr of None \<Rightarrow> True | Some q \<Rightarrow> h q \<noteq> None)
   \<Longrightarrow> \<exists>n'. exec_add_loop h p n = Some n'"
proof (induction xs arbitrary: pr p)
  case Nil
  then show ?case by (simp add: exec_add_loop.simps)
next
  case (Cons a xs)
  then show ?case by (subst exec_add_loop.simps) (auto split: option.splits)
qed

lemma exec_search_loop_find:
  "dseg h pr p xs lst None \<Longrightarrow>
   exec_search_loop h p n i
     = Some (find (\<lambda>a. case h a of None \<Rightarrow> False | Some c \<Rightarrow> id_matches n i c) xs)"
proof (induction xs arbitrary: pr p)
  case Nil
  then show ?case by (simp add: exec_search_loop.simps)
next
  case (Cons a xs)
  then show ?case
    by (subst exec_search_loop.simps) (auto simp: id_matches_def split: option.splits)
qed

lemma exec_timer_loop_member:
  "dseg h pr p xs lst None \<Longrightarrow> exec_timer_loop h p a = Some (a \<in> set xs)"
proof (induction xs arbitrary: pr p)
  case Nil
  then show ?case by (simp add: exec_timer_loop.simps)
next
  case (Cons b xs)
  then show ?case by (subst exec_timer_loop.simps) (auto split: option.splits)
qed

subsection \<open>\<^verbatim>\<open>exec_add\<close> and \<^verbatim>\<open>exec_free\<close> keep the list consistent\<close>

lemma registry_init: "registry exec_init []"
  by (simp add: registry_def exec_init_def)

lemma exec_add_null:
  "registry s xs \<Longrightarrow> exec_add hst None junk s = Some (s, None)"
proof -
  assume reg: "registry s xs"
  then have seg: "dseg (heap s) None (exec_cmds s) xs (last_exec_cmd s) None"
    by (simp add: registry_def)
  have loop: "\<exists>n. exec_add_loop (heap s) (exec_cmds s) k = Some n" for k
    using exec_add_loop_returns [OF seg] by simp
  show ?thesis
  proof (cases xs rule: rev_cases)
    case Nil
    with seg have "last_exec_cmd s = None" by simp
    then show ?thesis using loop [of 0] by (auto simp: exec_add_def)
  next
    case (snoc ys l)
    with seg have tl: "last_exec_cmd s = Some l" using dseg_last [OF seg] by simp
    from seg snoc obtain c where c: "heap s l = Some c" using dseg_live [OF seg, of l] by auto
    show ?thesis using tl c loop [of "int32 (number c + 1)"] by (auto simp: exec_add_def)
  qed
qed

lemma exec_add_registry:
  assumes reg: "registry s xs" and fresh: "heap s a = None"
  shows "\<exists>s'. exec_add hst (Some a) junk s = Some (s', Some a) \<and> registry s' (xs @ [a])
           \<and> (\<forall>b. heap s' b \<noteq> None \<longleftrightarrow> (b = a \<or> heap s b \<noteq> None))"
proof -
  from reg have d: "distinct xs"
    and seg: "dseg (heap s) None (exec_cmds s) xs (last_exec_cmd s) None"
    by (simp_all add: registry_def)
  from seg fresh have notin: "a \<notin> set xs" using dseg_live by fastforce
  have loop: "\<exists>n. exec_add_loop (heap s) (exec_cmds s) k = Some n" for k
    using exec_add_loop_returns [OF seg] by simp
  show ?thesis
  proof (cases xs rule: rev_cases)
    case Nil
    with seg have "exec_cmds s = None" "last_exec_cmd s = None" by simp_all
    then show ?thesis using Nil
      by (simp add: exec_add_def registry_def exec_add_loop.simps)
  next
    case (snoc ys l)
    from seg snoc have tl: "last_exec_cmd s = Some l" and hd: "exec_cmds s \<noteq> None"
      using dseg_last [OF seg] dseg_hd [OF seg] by auto
    from seg snoc obtain c where c: "heap s l = Some c" using dseg_live [OF seg, of l] by auto
    from notin snoc have al: "a \<noteq> l" by auto
    from loop [of "int32 (number c + 1)"] obtain n where
      n: "exec_add_loop (heap s) (exec_cmds s) (int32 (number c + 1)) = Some n" by blast
    have l_notin: "l \<notin> set ys" using d snoc by simp
    have seg': "dseg ((heap s)(l \<mapsto> c\<lparr>next_cmd := Some a\<rparr>)) None (exec_cmds s)
                  (ys @ [l]) (Some l) (Some a)"
    proof -
      have "dseg (heap s) None (exec_cmds s) (ys @ [l]) (Some l) None"
        using seg snoc tl by simp
      then show ?thesis using l_notin c by (rule dseg_set_next)
    qed
    show ?thesis using tl hd c al n notin d snoc seg'
      by (auto simp: exec_add_def registry_def upd_def dseg_append fun_upd_twist)
  qed
qed

lemma exec_free_registry:
  assumes reg: "registry s xs" and mem: "p \<in> set xs"
  shows "\<exists>s'. exec_free (Some p) s = Some s' \<and> registry s' (remove1 p xs)
           \<and> (\<forall>b. heap s' b \<noteq> None \<longleftrightarrow> (b \<noteq> p \<and> heap s b \<noteq> None))"
proof -
  from reg have d: "distinct xs"
    and seg: "dseg (heap s) None (exec_cmds s) xs (last_exec_cmd s) None"
    by (simp_all add: registry_def)
  from mem obtain as bs where xs: "xs = as @ p # bs" by (auto dest: split_list)
  with d have p_as: "p \<notin> set as" and p_bs: "p \<notin> set bs" and d_as: "distinct as"
    and d_bs: "distinct bs" and disj: "set as \<inter> set bs = {}" by auto
  have rem: "remove1 p xs = as @ bs" using xs p_as by (simp add: remove1_append)
  from seg xs obtain m c where
    left: "dseg (heap s) None (exec_cmds s) as m (Some p)" and
    c: "heap s p = Some c" and pc: "prev_cmd c = m" and
    right: "dseg (heap s) (Some p) (next_cmd c) bs (last_exec_cmd s) None"
    by (auto simp: dseg_append split: option.splits)
  show ?thesis
  proof (cases as rule: rev_cases)
    case Nil
    note as_nil = Nil
    with left have hd: "exec_cmds s = Some p" and m: "m = None" by simp_all
    show ?thesis
    proof (cases bs)
      case Nil
      with right have "next_cmd c = None" "last_exec_cmd s = Some p" by simp_all
      then show ?thesis using hd m c pc rem as_nil Nil
        by (auto simp: exec_free_def registry_def Let_def split: option.splits)
    next
      case (Cons b bs')
      with right obtain cb where nb: "next_cmd c = Some b" and cb: "heap s b = Some cb"
        by (auto split: option.splits)
      have bp: "b \<noteq> p" using p_bs Cons by auto
      have b_notin: "b \<notin> set bs'" using d_bs Cons by simp
      have tl: "last_exec_cmd s \<noteq> Some p"
        using dseg_last [OF right] Cons p_bs by auto
      have "dseg ((heap s)(b \<mapsto> cb\<lparr>prev_cmd := None\<rparr>)) None (Some b) (b # bs')
              (last_exec_cmd s) None"
        using right Cons nb b_notin cb by (intro dseg_set_prev) auto
      then show ?thesis using hd m c pc rem as_nil Cons nb cb bp tl p_bs d_bs
        by (auto simp: exec_free_def registry_def upd_def Let_def split: option.splits)
    qed
  next
    case (snoc as' l)
    note as_snoc = snoc
    with left obtain cl where ml: "m = Some l" and cl: "heap s l = Some cl"
      using dseg_last [OF left] dseg_live [OF left, of l] by auto
    have lp: "l \<noteq> p" using p_as snoc by auto
    have l_notin: "l \<notin> set as'" using d_as snoc by simp
    have l_bs: "l \<notin> set bs" using disj snoc by auto
    have hd: "exec_cmds s \<noteq> Some p"
      using dseg_hd [OF left] snoc p_as by (cases as') auto
    have left': "dseg ((heap s)(l \<mapsto> cl\<lparr>next_cmd := next_cmd c\<rparr>)) None (exec_cmds s)
                   (as' @ [l]) (Some l) (next_cmd c)"
    proof -
      have "dseg (heap s) None (exec_cmds s) (as' @ [l]) (Some l) (Some p)"
        using left snoc ml by simp
      then show ?thesis using l_notin cl by (rule dseg_set_next)
    qed
    show ?thesis
    proof (cases bs)
      case Nil
      with right have "next_cmd c = None" "last_exec_cmd s = Some p" by simp_all
      then show ?thesis using hd ml c pc rem as_snoc Nil cl lp left' p_as d_as
        by (auto simp: exec_free_def registry_def upd_def Let_def split: option.splits)
    next
      case (Cons b bs')
      with right obtain cb where nb: "next_cmd c = Some b" and cb: "heap s b = Some cb"
        by (auto split: option.splits)
      have bp: "b \<noteq> p" using p_bs Cons by auto
      have bl: "b \<noteq> l" using l_bs Cons by auto
      have b_notin: "b \<notin> set bs'" using d_bs Cons by simp
      have b_as: "b \<notin> set as" using disj Cons by auto
      have tl: "last_exec_cmd s \<noteq> Some p"
        using dseg_last [OF right] Cons p_bs by auto
      have right': "dseg ((heap s)(b \<mapsto> cb\<lparr>prev_cmd := Some l\<rparr>)) (Some l) (Some b)
                      (b # bs') (last_exec_cmd s) None"
        using right Cons nb b_notin cb by (intro dseg_set_prev) auto
      have "dseg ((heap s)(l \<mapsto> cl\<lparr>next_cmd := Some b\<rparr>, b \<mapsto> cb\<lparr>prev_cmd := Some l\<rparr>,
                p := None)) None (exec_cmds s) ((as' @ [l]) @ b # bs') (last_exec_cmd s) None"
        unfolding dseg_append [of _ _ _ "as' @ [l]"]
      proof (intro exI conjI)
        show "dseg ((heap s)(l \<mapsto> cl\<lparr>next_cmd := Some b\<rparr>, b \<mapsto> cb\<lparr>prev_cmd := Some l\<rparr>,
                p := None)) None (exec_cmds s) (as' @ [l]) (Some l) (Some b)"
          using left' nb b_as p_as as_snoc by simp
        show "dseg ((heap s)(l \<mapsto> cl\<lparr>next_cmd := Some b\<rparr>, b \<mapsto> cb\<lparr>prev_cmd := Some l\<rparr>,
                p := None)) (Some l) (Some b) (b # bs') (last_exec_cmd s) None"
          using right' l_bs p_bs Cons bl by (simp add: fun_upd_twist [of l b] del: dseg.simps)
      qed
      then show ?thesis using hd ml c pc rem as_snoc Cons nb cb cl bp bl lp tl d disj xs
        by (auto simp: exec_free_def registry_def upd_def Let_def split: option.splits)
    qed
  qed
qed

text \<open>
  In a state that creations and removals lead to, the list is consistent and every live
  structure is in the list.
\<close>

lemma reachable_registry:
  "reachable s \<Longrightarrow> \<exists>xs. registry s xs \<and> (\<forall>a. heap s a \<noteq> None \<longrightarrow> a \<in> set xs)"
proof (induction rule: reachable.induct)
  case init
  show ?case using registry_init by (auto simp: exec_init_def)
next
  case (add s m hst junk s' r)
  then obtain xs where reg: "registry s xs" and own: "\<forall>a. heap s a \<noteq> None \<longrightarrow> a \<in> set xs"
    by blast
  show ?case
  proof (cases m)
    case None
    with add.hyps(3) exec_add_null [OF reg, of hst junk] have "s' = s" by simp
    with reg own show ?thesis by blast
  next
    case (Some a)
    with add.hyps(2) have "heap s a = None" by simp
    from exec_add_registry [OF reg this, of hst junk] add.hyps(3) Some
    have "registry s' (xs @ [a])" and "\<forall>b. heap s' b \<noteq> None \<longleftrightarrow> (b = a \<or> heap s b \<noteq> None)"
      by auto
    with own show ?thesis by (intro exI [of _ "xs @ [a]"]) auto
  qed
next
  case (free s p s')
  then obtain xs where reg: "registry s xs" and own: "\<forall>a. heap s a \<noteq> None \<longrightarrow> a \<in> set xs"
    by blast
  show ?case
  proof (cases p)
    case None
    with free.hyps(3) have "s' = s" by (simp add: exec_free_def)
    with reg own show ?thesis by blast
  next
    case (Some a)
    with free.hyps(2) own have mem: "a \<in> set xs" by simp
    from exec_free_registry [OF reg mem] free.hyps(3) Some
    have "registry s' (remove1 a xs)" and "\<forall>b. heap s' b \<noteq> None \<longleftrightarrow> (b \<noteq> a \<and> heap s b \<noteq> None)"
      by auto
    with own show ?thesis by (intro exI [of _ "remove1 a xs"]) auto
  qed
qed

lemma then_add_reachable:
  assumes "reachable s" and "heap s a = None"
  shows "reachable (then_add a s)"
proof -
  from reachable_registry [OF assms(1)] obtain xs where "registry s xs" by blast
  from exec_add_registry [OF this assms(2), of plain_host 0]
  obtain s' where s': "exec_add plain_host (Some a) 0 s = Some (s', Some a)" by blast
  then have "then_add a s = s'" by (simp add: then_add_def)
  with reachable.add [OF assms(1) _ s'] assms(2) show ?thesis by simp
qed

lemma then_free_reachable:
  assumes "reachable s" and "heap s a \<noteq> None"
  shows "reachable (then_free a s)"
proof -
  from reachable_registry [OF assms(1)] assms(2) obtain xs
    where "registry s xs" and "a \<in> set xs" by blast
  from exec_free_registry [OF this]
  obtain s' where s': "exec_free (Some a) s = Some s'" by blast
  then have "then_free a s = s'" by (simp add: then_free_def)
  with reachable.free [OF assms(1) _ s'] assms(2) show ?thesis by simp
qed

lemmas run_defs = then_add_def then_free_def then_process_cb_def then_set_def
  exec_add_def exec_free_def exec_init_def upd_def exec_add_loop.simps int32_def plain_host_def

lemma reachable_state_ac: "reachable state_ac"
proof -
  have 1: "reachable (then_add 1 exec_init)"
    by (rule then_add_reachable [OF reachable.init]) (simp add: exec_init_def)
  have 2: "reachable (then_add 2 (then_add 1 exec_init))"
    by (rule then_add_reachable [OF 1]) (simp add: run_defs)
  have 3: "reachable state_abc"
    unfolding state_abc_def by (rule then_add_reachable [OF 2]) (simp add: run_defs)
  show ?thesis
    unfolding state_ac_def by (rule then_free_reachable [OF 3]) (simp add: state_abc_def run_defs)
qed

subsection \<open>Claims about the registry\<close>

text \<open>
  C9. After every sequence of creations (\<^verbatim>\<open>exec_add\<close>) and removals
  (\<^verbatim>\<open>exec_free\<close>) the head pointer, the tail pointer and the links of the nodes
  describe one list of distinct nodes; the traversal from the head along
  \<^verbatim>\<open>next_cmd\<close> yields this list and the traversal from the tail along
  \<^verbatim>\<open>prev_cmd\<close> yields its reverse. In such a state the next creation and the next
  removal return (they dereference live pointers only).
\<close>

theorem registry_list_consistency:
  assumes "reachable s"
  shows "\<exists>xs. registry s xs
           \<and> walk_next (heap s) (exec_cmds s) = Some xs
           \<and> walk_prev (heap s) (last_exec_cmd s) = Some (rev xs)
           \<and> (\<forall>hst m junk. (case m of None \<Rightarrow> True | Some a \<Rightarrow> heap s a = None)
                  \<longrightarrow> exec_add hst m junk s \<noteq> None)
           \<and> (\<forall>p. (case p of None \<Rightarrow> True | Some a \<Rightarrow> heap s a \<noteq> None)
                  \<longrightarrow> exec_free p s \<noteq> None)"
proof -
  from reachable_registry [OF assms] obtain xs
    where reg: "registry s xs" and own: "\<forall>a. heap s a \<noteq> None \<longrightarrow> a \<in> set xs" by blast
  then have seg: "dseg (heap s) None (exec_cmds s) xs (last_exec_cmd s) None"
    by (simp add: registry_def)
  have adds: "exec_add hst m junk s \<noteq> None"
    if "case m of None \<Rightarrow> True | Some a \<Rightarrow> heap s a = None" for hst m junk
  proof (cases m)
    case None
    then show ?thesis using exec_add_null [OF reg, of hst junk] by simp
  next
    case (Some a)
    with that have "heap s a = None" by simp
    from exec_add_registry [OF reg this, of hst junk] Some show ?thesis by auto
  qed
  have frees: "exec_free p s \<noteq> None"
    if "case p of None \<Rightarrow> True | Some a \<Rightarrow> heap s a \<noteq> None" for p
  proof (cases p)
    case None
    then show ?thesis by (simp add: exec_free_def)
  next
    case (Some a)
    with that own have "a \<in> set xs" by simp
    from exec_free_registry [OF reg this] Some show ?thesis by auto
  qed
  from reg walk_next_dseg [OF seg] walk_prev_dseg [OF seg] adds frees
  show ?thesis by blast
qed

theorem registry_list_consistency_witness:
  "reachable state_ac
   \<and> registry state_ac [1, 3]
   \<and> walk_next (heap state_ac) (exec_cmds state_ac) = Some [1, 3]
   \<and> walk_prev (heap state_ac) (last_exec_cmd state_ac) = Some [3, 1]"
proof -
  from registry_list_consistency [OF reachable_state_ac] obtain xs where
    reg: "registry state_ac xs" and
    fwd: "walk_next (heap state_ac) (exec_cmds state_ac) = Some xs" and
    bwd: "walk_prev (heap state_ac) (last_exec_cmd state_ac) = Some (rev xs)"
    by blast
  have w: "walk_next (heap state_ac) (exec_cmds state_ac) = Some [1, 3]"
    by (simp add: state_ac_def state_abc_def run_defs walk_next.simps)
  with fwd have "xs = [1, 3]" by simp
  with reg bwd reachable_state_ac w show ?thesis by simp
qed

text \<open>
  C7. Starting from the empty registry, jobs A, B and C are created and get the numbers
  0, 1 and 2; B is removed; the job D created next gets the number 1 that B had, not 3.
  The addresses are those that \<^verbatim>\<open>malloc\<close> returns: different for structures that
  are live at the same time (D may get the memory of B again).
\<close>

theorem id_reuse_after_removal:
  assumes "distinct [a, b, c]" and "d \<noteq> a" and "d \<noteq> c"
  shows "do {
           (s1, pa) \<leftarrow> exec_add hst (Some a) ja exec_init;
           (s2, pb) \<leftarrow> exec_add hst (Some b) jb s1;
           (s3, pc) \<leftarrow> exec_add hst (Some c) jc s2;
           s4 \<leftarrow> exec_free pb s3;
           (s5, pd) \<leftarrow> exec_add hst (Some d) jd s4;
           Some ([pa, pb, pc, pd],
                 map (\<lambda>x. map_option number (heap s3 x)) [a, b, c],
                 map (\<lambda>x. map_option number (heap s5 x)) [a, c, d])
         } = Some ([Some a, Some b, Some c, Some d],
                   [Some 0, Some 1, Some 2],
                   [Some 0, Some 2, Some 1])"
  using assms
  by (simp add: exec_add_def exec_free_def exec_init_def upd_def exec_add_loop.simps int32_def)

theorem id_reuse_after_removal_witness:
  "distinct [1, 2, 3 :: addr] \<and> (2 :: addr) \<noteq> 1 \<and> (2 :: addr) \<noteq> 3 \<and>
   do {
     (s1, pa) \<leftarrow> exec_add plain_host (Some 1) 0 exec_init;
     (s2, pb) \<leftarrow> exec_add plain_host (Some 2) 0 s1;
     (s3, pc) \<leftarrow> exec_add plain_host (Some 3) 0 s2;
     s4 \<leftarrow> exec_free pb s3;
     (s5, pd) \<leftarrow> exec_add plain_host (Some 2) 0 s4;
     Some ([pa, pb, pc, pd],
           map (\<lambda>x. map_option number (heap s3 x)) [1, 2, 3],
           map (\<lambda>x. map_option number (heap s5 x)) [1, 3, 2])
   } = Some ([Some 1, Some 2, Some 3, Some 2],
             [Some 0, Some 1, Some 2],
             [Some 0, Some 2, Some 1])"
proof -
  have h: "distinct [1, 2, 3 :: addr]" "(2 :: addr) \<noteq> 1" "(2 :: addr) \<noteq> 3" by simp_all
  from id_reuse_after_removal [OF h, of plain_host 0 0 0 0] h show ?thesis by simp
qed

text \<open>
  C5 (the code does not do this). \<^verbatim>\<open>exec_add\<close> takes the first gap between the
  numbers of two neighbours in the list, but the new job is put at the end of the list, so
  the same gap is found again: after A, B, C are created, B is removed and D is created
  (number 1), the next job E gets the number 1 as well, while D is still live. A gap
  before the first job is never seen: after A and B are created and A is removed, the next
  job gets the number 2, not 0.
\<close>

theorem exec_add_reuses_live_number:
  "registry (then_add 5 (then_add 4 state_ac)) [1, 3, 4, 5]
   \<and> map (\<lambda>x. map_option number (heap (then_add 5 (then_add 4 state_ac)) x)) [1, 3, 4, 5]
       = [Some 0, Some 2, Some 1, Some 1]
   \<and> registry (then_add 3 (then_free 1 (then_add 2 (then_add 1 exec_init)))) [2, 3]
   \<and> map (\<lambda>x. map_option number
                  (heap (then_add 3 (then_free 1 (then_add 2 (then_add 1 exec_init)))) x)) [2, 3]
       = [Some 1, Some 2]"
  by (simp add: registry_def state_ac_def state_abc_def run_defs)

subsection \<open>Claims about the lookup\<close>

lemma find_first_match:
  "xs = ys @ a # zs \<Longrightarrow> P a \<Longrightarrow> (\<forall>b\<in>set ys. \<not> P b) \<Longrightarrow> find P xs = Some a"
  by (induction ys arbitrary: xs) auto

lemma parse_id_empty: "parse_id [] = 0"
  by (simp add: parse_id_def strtol_def)

lemma state_named_registry: "registry state_named [1, 2]"
  by (simp add: registry_def state_named_def run_defs)

text \<open>
  C6, as the code has it. The argument is parsed; the list is walked from the head and
  the first job is returned whose number equals the parsed number (when the whole string
  is a number that is not negative) or whose name is the argument. So the job with the
  number asked for is returned when no job ahead of it in the list has that number or is
  named by the argument; a job ahead of it that is named by the argument is returned
  instead.
\<close>

theorem exec_search_by_id_first_match:
  assumes "registry s xs"
  shows "exec_search_by_id id_str s
           = Some (find (\<lambda>a. case heap s a of None \<Rightarrow> False
                               | Some c \<Rightarrow> id_matches (parse_id id_str) id_str c) xs)
         \<and> (\<forall>ys a zs c.
               xs = ys @ a # zs \<and> heap s a = Some c \<and> 0 \<le> parse_id id_str
               \<and> parse_id id_str < 2147483648 \<and> number c = parse_id id_str
               \<and> (\<forall>b c'. b \<in> set ys \<and> heap s b = Some c'
                      \<longrightarrow> number c' \<noteq> parse_id id_str \<and> name c' \<noteq> Some id_str)
               \<longrightarrow> exec_search_by_id id_str s = Some (Some a))"
proof (intro conjI allI impI)
  from assms have seg: "dseg (heap s) None (exec_cmds s) xs (last_exec_cmd s) None"
    by (simp add: registry_def)
  show first: "exec_search_by_id id_str s
           = Some (find (\<lambda>a. case heap s a of None \<Rightarrow> False
                               | Some c \<Rightarrow> id_matches (parse_id id_str) id_str c) xs)"
    unfolding exec_search_by_id_def by (rule exec_search_loop_find [OF seg])
  fix ys a zs c
  assume h: "xs = ys @ a # zs \<and> heap s a = Some c \<and> 0 \<le> parse_id id_str
               \<and> parse_id id_str < 2147483648 \<and> number c = parse_id id_str
               \<and> (\<forall>b c'. b \<in> set ys \<and> heap s b = Some c'
                      \<longrightarrow> number c' \<noteq> parse_id id_str \<and> name c' \<noteq> Some id_str)"
  then have conv: "int32 (parse_id id_str) = parse_id id_str"
    by (simp add: int32_def)
  have here: "case heap s a of None \<Rightarrow> False | Some c \<Rightarrow> id_matches (parse_id id_str) id_str c"
    using h conv by (simp add: id_matches_def)
  have none: "\<forall>b\<in>set ys. \<not> (case heap s b of None \<Rightarrow> False
                               | Some c \<Rightarrow> id_matches (parse_id id_str) id_str c)"
    using h conv by (auto simp: id_matches_def split: option.splits)
  from h have xs: "xs = ys @ a # zs" by simp
  show "exec_search_by_id id_str s = Some (Some a)"
    unfolding first using find_first_match [OF xs, of _ , OF here none] by simp
qed

theorem exec_search_by_id_first_match_witness:
  "registry state_named [1, 2]
   \<and> map_option number (heap state_named 2) = Some 1
   \<and> exec_search_by_id ''0'' state_named = Some (Some 1)
   \<and> map_option number (heap state_named 1) = Some 0"
proof -
  have p: "parse_id ''0'' = 0"
    by (simp add: parse_id_def strtol_def isspace_def isdigit_def dec_value_def
        LONG_MAX_def LONG_MIN_def)
  have c: "heap state_named 1 = Some (the (heap state_named 1))"
    by (simp add: state_named_def run_defs)
  have n: "number (the (heap state_named 1)) = 0"
    by (simp add: state_named_def run_defs)
  have n2: "map_option number (heap state_named 2) = Some 1"
    by (simp add: state_named_def run_defs)
  from exec_search_by_id_first_match [OF state_named_registry, of "''0''"]
  have "\<forall>ys a zs c.
          [1, 2] = ys @ a # zs \<and> heap state_named a = Some c \<and> 0 \<le> parse_id ''0''
          \<and> parse_id ''0'' < 2147483648 \<and> number c = parse_id ''0''
          \<and> (\<forall>b c'. b \<in> set ys \<and> heap state_named b = Some c'
                 \<longrightarrow> number c' \<noteq> parse_id ''0'' \<and> name c' \<noteq> Some ''0'')
          \<longrightarrow> exec_search_by_id ''0'' state_named = Some (Some a)"
    by (rule conjunct2)
  then have "[1, 2] = [] @ 1 # [2] \<and> heap state_named 1 = Some (the (heap state_named 1))
          \<and> 0 \<le> parse_id ''0''
          \<and> parse_id ''0'' < 2147483648 \<and> number (the (heap state_named 1)) = parse_id ''0''
          \<and> (\<forall>b c'. b \<in> set [] \<and> heap state_named b = Some c'
                 \<longrightarrow> number c' \<noteq> parse_id ''0'' \<and> name c' \<noteq> Some ''0'')
          \<longrightarrow> exec_search_by_id ''0'' state_named = Some (Some 1)"
    by blast
  with c n p have r: "exec_search_by_id ''0'' state_named = Some (Some 1)" by simp
  have n1: "map_option number (heap state_named 1) = Some 0"
    by (simp add: state_named_def run_defs)
  from state_named_registry n2 r n1 show ?thesis by simp
qed

text \<open>
  C6, as the claim words it, fails: with a first job of number 0 that is named \<open>1\<close>
  and a second job of number 1, the lookup of \<open>1\<close> returns the first job.
\<close>

theorem exec_search_by_id_name_before_number:
  "exec_search_by_id ''1'' state_named = Some (Some 1)
   \<and> map_option number (heap state_named 1) = Some 0
   \<and> map_option name (heap state_named 1) = Some (Some ''1'')
   \<and> map_option number (heap state_named 2) = Some 1
   \<and> parse_id ''1'' = 1"
  by (simp add: exec_search_by_id_def exec_search_loop.simps state_named_def run_defs
      parse_id_def strtol_def isspace_def isdigit_def dec_value_def LONG_MAX_def LONG_MIN_def)

text \<open>
  C10. The empty string is parsed as the number 0 with nothing left over, so the lookup
  of the empty string returns the first job of the list whose number is 0 or whose name
  is the empty string (the list is in the order of creation: \<^verbatim>\<open>exec_add\<close> appends).
\<close>

theorem exec_search_by_id_empty_string:
  assumes "registry s xs"
  shows "strtol [] = (0, []) \<and> parse_id [] = 0
         \<and> exec_search_by_id [] s
             = Some (find (\<lambda>a. case heap s a of None \<Rightarrow> False
                                 | Some c \<Rightarrow> number c = 0 \<or> name c = Some []) xs)"
proof -
  from assms have seg: "dseg (heap s) None (exec_cmds s) xs (last_exec_cmd s) None"
    by (simp add: registry_def)
  have m: "id_matches 0 [] = (\<lambda>c. number c = 0 \<or> name c = Some [])"
    by (rule ext) (simp add: id_matches_def int32_def)
  have "exec_search_by_id [] s
          = Some (find (\<lambda>a. case heap s a of None \<Rightarrow> False | Some c \<Rightarrow> id_matches 0 [] c) xs)"
    unfolding exec_search_by_id_def parse_id_empty by (rule exec_search_loop_find [OF seg])
  then have "exec_search_by_id [] s
          = Some (find (\<lambda>a. case heap s a of None \<Rightarrow> False
                              | Some c \<Rightarrow> number c = 0 \<or> name c = Some []) xs)"
    unfolding m .
  then show ?thesis
    by (simp add: parse_id_empty strtol_def)
qed

theorem exec_search_by_id_empty_string_witness:
  "registry state_named [1, 2] \<and> exec_search_by_id [] state_named = Some (Some 1)"
  using exec_search_by_id_empty_string [OF state_named_registry] state_named_registry
  by (simp add: state_named_def run_defs)

subsection \<open>Claims about the display of output\<close>

lemma int32_id: "- 2147483648 \<le> x \<Longrightarrow> x < 2147483648 \<Longrightarrow> int32 x = x"
  by (simp add: int32_def)

lemma upt_from_Suc: "[k ..< k + Suc n] = k # [Suc k ..< Suc k + n]"
  by (simp add: upt_rec)

lemma split_lf_unfold:
  "split_lf t = takeWhile (\<lambda>ch. ch \<noteq> CHR 0x0A) t
     # (if CHR 0x0A \<in> set t then split_lf (tl (dropWhile (\<lambda>ch. ch \<noteq> CHR 0x0A) t)) else [])"
  by (induction t) (auto split: list.splits)

lemma split_lf_not_Nil: "split_lf t \<noteq> []"
  by (subst split_lf_unfold) simp

lemma spec_lines_Nil: "spec_lines [] = []"
  by (simp add: spec_lines_def)

lemma spec_lines_unfold:
  assumes "t \<noteq> []"
  shows "spec_lines t = takeWhile (\<lambda>ch. ch \<noteq> CHR 0x0A) t
     # (if CHR 0x0A \<in> set t then spec_lines (tl (dropWhile (\<lambda>ch. ch \<noteq> CHR 0x0A) t)) else [])"
proof (cases "CHR 0x0A \<in> set t")
  case True
  then have "split_lf t = takeWhile (\<lambda>ch. ch \<noteq> CHR 0x0A) t
       # split_lf (tl (dropWhile (\<lambda>ch. ch \<noteq> CHR 0x0A) t))"
    by (subst split_lf_unfold) simp
  then show ?thesis using True split_lf_not_Nil [of "tl (dropWhile (\<lambda>ch. ch \<noteq> CHR 0x0A) t)"]
    by (simp add: spec_lines_def)
next
  case False
  then have tw: "takeWhile (\<lambda>ch. ch \<noteq> CHR 0x0A) t = t"
    by (simp add: takeWhile_eq_all_conv) blast
  have one: "split_lf t = [t]"
    by (subst split_lf_unfold) (simp only: tw False if_False)
  show ?thesis
    unfolding spec_lines_def one tw using False assms by simp
qed

lemma length_spec_lines: "length (spec_lines t) \<le> length t"
proof (induction t rule: length_induct)
  case (1 t)
  show ?case
  proof (cases "t = []")
    case True
    then show ?thesis by (simp add: spec_lines_Nil)
  next
    case False
    have shorter: "length (tl (dropWhile (\<lambda>ch. ch \<noteq> CHR 0x0A) t)) < length t"
      using False length_dropWhile_le [of "\<lambda>ch. ch \<noteq> CHR 0x0A" t]
      by (cases t) (simp_all add: less_Suc_eq_le le_diff_conv)
    with 1 have "length (spec_lines (tl (dropWhile (\<lambda>ch. ch \<noteq> CHR 0x0A) t)))
                   \<le> length (tl (dropWhile (\<lambda>ch. ch \<noteq> CHR 0x0A) t))"
      by blast
    with shorter show ?thesis by (subst spec_lines_unfold [OF False]) simp
  qed
qed

text \<open>
  The loop of \<^verbatim>\<open>exec_display_output\<close>, started at line number \<open>k\<close>, handles the
  lines of the text in order and counts them from \<open>k\<close>, as long as every copy of a line
  can be made.
\<close>

lemma exec_display_loop_lines:
  assumes mem: "\<forall>n. alloc hst n"
    and dec: "\<forall>l\<in>set (spec_lines t). exec_decode_color hst c (Some l) \<noteq> None"
    and bound: "k + length t < 2147483648"
  shows "exec_display_loop hst c buffer out_flag t (int k)
         = concat (map (\<lambda>(i, l). exec_display_line hst c buffer out_flag (int i)
                                  (the (exec_decode_color hst c (Some l))))
                       (zip [k ..< k + length (spec_lines t)] (spec_lines t)))"
  using dec bound
proof (induction t arbitrary: k rule: length_induct)
  case (1 t)
  show ?case
  proof (cases "t = []")
    case True
    then show ?thesis by (simp add: exec_display_loop.simps spec_lines_Nil)
  next
    case False
    let ?l = "takeWhile (\<lambda>ch. ch \<noteq> CHR 0x0A) t"
    let ?t' = "tl (dropWhile (\<lambda>ch. ch \<noteq> CHR 0x0A) t)"
    have shorter: "length ?t' < length t"
      using False length_dropWhile_le [of "\<lambda>ch. ch \<noteq> CHR 0x0A" t]
      by (cases t) (simp_all add: less_Suc_eq_le le_diff_conv)
    have lines: "spec_lines t = ?l # (if CHR 0x0A \<in> set t then spec_lines ?t' else [])"
      by (rule spec_lines_unfold [OF False])
    from 1(2) lines obtain line where line: "exec_decode_color hst c (Some ?l) = Some line"
      by auto
    have next_nb: "int32 (int k + 1) = int (Suc k)"
    proof -
      from 1(3) False have "k + 1 < 2147483648" by (cases t) simp_all
      then have "int k + 1 < 2147483648" by simp
      moreover have "- 2147483648 \<le> int k + 1" by simp
      ultimately have "int32 (int k + 1) = int k + 1" by (rule int32_id [rotated])
      then show ?thesis by simp
    qed
    show ?thesis
    proof (cases "CHR 0x0A \<in> set t")
      case True
      have "\<forall>l\<in>set (spec_lines ?t'). exec_decode_color hst c (Some l) \<noteq> None"
        using 1(2) lines True by simp
      moreover have "Suc k + length ?t' < 2147483648" using 1(3) shorter by simp
      ultimately have IH: "exec_display_loop hst c buffer out_flag ?t' (int (Suc k))
         = concat (map (\<lambda>(i, l). exec_display_line hst c buffer out_flag (int i)
                                  (the (exec_decode_color hst c (Some l))))
                       (zip [Suc k ..< Suc k + length (spec_lines ?t')] (spec_lines ?t')))"
        using 1(1) shorter by blast
      have "length (spec_lines t) = Suc (length (spec_lines ?t'))"
        using lines True by simp
      then have "[k ..< k + length (spec_lines t)] = k # [Suc k ..< Suc k + length (spec_lines ?t')]"
        by (simp only: upt_from_Suc)
      then show ?thesis
        using False True mem line next_nb IH lines
        by (subst exec_display_loop.simps) simp
    next
      case no_lf: False
      then show ?thesis
        using False mem line lines
        by (subst exec_display_loop.simps) (simp add: upt_rec)
    qed
  qed
qed

lemma split_lf_append_lf:
  "split_lf (u @ CHR 0x0A # w) = split_lf u @ split_lf w"
  by (induction u) (auto split: list.splits simp: split_lf_not_Nil)

lemma spec_lines_append_lf:
  "spec_lines (u @ CHR 0x0A # w) = split_lf u @ spec_lines w"
  using split_lf_not_Nil [of w]
  by (simp add: spec_lines_def split_lf_append_lf butlast_append)

lemma concat_map_singletons:
  "(\<forall>z\<in>set zs. g z = [f z]) \<Longrightarrow> concat (map g zs) = map f zs"
  by (induction zs) auto

lemma length_dec_digits: "n < 10 ^ k \<Longrightarrow> 0 < k \<Longrightarrow> length (dec_digits n) \<le> k"
proof (induction k arbitrary: n)
  case 0
  then show ?case by simp
next
  case (Suc k)
  show ?case
  proof (cases "n < 10")
    case True
    then show ?thesis by (simp add: dec_digits.simps)
  next
    case False
    with Suc.prems have "0 < k" by (cases k) simp_all
    moreover from Suc.prems have "n div 10 < 10 ^ k" by (simp add: less_mult_imp_div_less mult.commute)
    ultimately have "length (dec_digits (n div 10)) \<le> k" by (rule Suc.IH [rotated])
    with False show ?thesis by (subst dec_digits.simps) simp
  qed
qed

lemma length_show_int: "0 \<le> k \<Longrightarrow> k < 2147483648 \<Longrightarrow> length (show_int k) \<le> 10"
proof -
  assume "0 \<le> k" and "k < 2147483648"
  then have "nat k < 10 ^ 10" by simp
  then have "length (dec_digits (nat k)) \<le> 10" by (rule length_dec_digits) simp
  with \<open>0 \<le> k\<close> show ?thesis by (simp add: show_int_def)
qed

text \<open>What the body of the loop sends for one line, mode by mode.\<close>

lemma exec_display_line_buffer_numbered:
  assumes "pipe_command c = None" "output_to_buffer c \<noteq> 0" "line_numbers c \<noteq> 0"
    and "\<forall>n. alloc hst n" and "0 \<le> k" "k < 2147483648" and "length line < 1000000000"
  shows "exec_display_line hst c buffer out_flag k line
           = [Command buffer (show_int k @ ''. '' @ line)]"
proof -
  have len: "int32 (int32 (32 + int (length line)) + 1) = 33 + int (length line)"
    using assms(7) by (simp add: int32_id)
  have "length (show_int k) \<le> 10" using assms(5,6) by (rule length_show_int)
  then have "snprintf (33 + int (length line)) (show_int k @ ''. '' @ line)
               = show_int k @ ''. '' @ line"
    by (simp add: snprintf_def)
  with len assms(1-4) show ?thesis by (simp add: exec_display_line_def Let_def)
qed

lemma exec_display_line_buffer_plain:
  assumes "pipe_command c = None" "output_to_buffer c \<noteq> 0" "line_numbers c = 0"
  shows "exec_display_line hst c buffer out_flag k line
           = [Command buffer (if line \<noteq> [] then line else '' '')]"
  using assms by (simp add: exec_display_line_def)

lemma exec_display_line_default:
  assumes "pipe_command c = None" "output_to_buffer c = 0" and "0 \<le> k" "k < 2147483648"
  shows "exec_display_line hst c buffer out_flag k line
           = [Printf_tags buffer
                (snprintf 1024
                   (''exec_'' @ (if out_flag \<noteq> 0 then ''stdout'' else ''stderr'')
                    @ '',exec_cmd_''
                    @ (case name c of Some nm \<Rightarrow> nm
                       | None \<Rightarrow> snprintf 32 (show_int (number c)))))
                ((if line_numbers c \<noteq> 0 then show_int k @ [CHR 0x09]
                  else [CHR '' '', CHR 0x09]) @ line)]"
proof -
  have "length (show_int k) \<le> 10" using assms(3,4) by (rule length_show_int)
  then have "snprintf 32 (show_int k @ [CHR 0x09]) = show_int k @ [CHR 0x09]"
    by (simp add: snprintf_def)
  with assms(1,2) show ?thesis by (simp add: exec_display_line_def Let_def)
qed

lemma exec_display_line_pipe_append:
  assumes "pipe_command c = Some pipe" "\<not> strstr pipe ''$line''" and "\<forall>n. alloc hst n"
    and "length pipe < 1000000000" "length line < 1000000000"
  shows "exec_display_line hst c buffer out_flag k line
           = [Command buffer (pipe @ '' '' @ line)]"
proof -
  have len: "int32 (int32 (int32 (int (length pipe) + 1) + int (length line)) + 1)
               = int (length pipe) + int (length line) + 2"
    using assms(4,5) by (simp add: int32_id)
  have "snprintf (int (length pipe) + int (length line) + 2) (pipe @ '' '' @ line)
          = pipe @ '' '' @ line"
    by (simp add: snprintf_def)
  with len assms(1-3) show ?thesis by (simp add: exec_display_line_def Let_def)
qed

lemma exec_display_line_pipe_replace:
  assumes "pipe_command c = Some pipe" "strstr pipe ''$line''"
  shows "exec_display_line hst c buffer out_flag k line
           = (case string_replace hst pipe ''$line'' line of
                None \<Rightarrow> [] | Some line2 \<Rightarrow> [Command buffer line2])"
  using assms by (simp add: exec_display_line_def)
lemma map_snd_of_zip:
  "length ks = length ls \<Longrightarrow> map (\<lambda>(i, l). h l) (zip ks ls) = map h ls"
  by (induction ks ls rule: list_induct2) auto

text \<open>
  C8, as the code has it. When the display takes place (the text is there and, for
  output to a buffer, the buffer is found) and the copies of the lines can be made,
  \<^verbatim>\<open>exec_display_output\<close> handles the lines of the captured text in order, where the
  lines are the fragments between line feeds without the empty fragment after a last
  line feed, and counts them from 1 in every call (the counter is a local variable).
  Each line first goes through the color policy (\<open>dec\<close> below). Then, without a pipe
  command, every line is sent: to a buffer as the command \<open>N. line\<close> when numbering is
  on (a line as it is, or one space for an empty line, when it is off), or printed with
  the tags of the command and the prefix \<open>N\<close>, tab (a space and a tab without
  numbering). With a pipe command every line is sent as a command made from the pipe
  command, and carries no number whether numbering is on or not. So
  \<open>line1\<newline>line2\<newline>\<close> and \<open>line1\<newline>line2\<close> both give exactly two lines, numbered 1 and 2
  in the two modes that number, and an empty line between two line feeds is sent as a
  line of its own. Nothing is sent when the output is for a buffer that is not found.
\<close>

theorem exec_display_output_emits:
  fixes dec :: "string \<Rightarrow> string" and captured :: string and c :: exec_cmd
    and out_flag :: int
  defines "lines \<equiv> spec_lines captured"
    and "numbered \<equiv> zip [1 ..< 1 + length (spec_lines captured)] (spec_lines captured)"
    and "tags \<equiv> snprintf 1024
                   (''exec_'' @ (if out_flag \<noteq> 0 then ''stdout'' else ''stderr'')
                    @ '',exec_cmd_''
                    @ (case name c of Some nm \<Rightarrow> nm
                       | None \<Rightarrow> snprintf 32 (show_int (number c))))"
  assumes mem: "\<forall>n. alloc hst n"
    and cap: "(if out_flag \<noteq> 0 then out c else err c) = Some captured"
    and len: "length captured < 2147483647"
    and decs: "\<forall>l\<in>set (spec_lines captured).
                 exec_decode_color hst c (Some l) = Some (dec l) \<and> length (dec l) < 1000000000"
  shows "(pipe_command c = None \<and> output_to_buffer c \<noteq> 0 \<and> buffer = None
            \<longrightarrow> exec_display_output hst c buffer out_flag = [])
       \<and> (pipe_command c = None \<and> output_to_buffer c \<noteq> 0 \<and> buffer \<noteq> None
            \<and> line_numbers c \<noteq> 0
            \<longrightarrow> exec_display_output hst c buffer out_flag
                  = map (\<lambda>(i, l). Command buffer (show_int (int i) @ ''. '' @ dec l)) numbered)
       \<and> (pipe_command c = None \<and> output_to_buffer c \<noteq> 0 \<and> buffer \<noteq> None
            \<and> line_numbers c = 0
            \<longrightarrow> exec_display_output hst c buffer out_flag
                  = map (\<lambda>l. Command buffer (if dec l \<noteq> [] then dec l else '' '')) lines)
       \<and> (pipe_command c = None \<and> output_to_buffer c = 0
            \<longrightarrow> exec_display_output hst c buffer out_flag
                  = map (\<lambda>(i, l). Printf_tags buffer tags
                           ((if line_numbers c \<noteq> 0 then show_int (int i) @ [CHR 0x09]
                             else [CHR '' '', CHR 0x09]) @ dec l)) numbered)
       \<and> (pipe_command c = Some pipe \<and> \<not> strstr pipe ''$line'' \<and> length pipe < 1000000000
            \<longrightarrow> exec_display_output hst c buffer out_flag
                  = map (\<lambda>l. Command buffer (pipe @ '' '' @ dec l)) lines)
       \<and> (pipe_command c = Some pipe \<and> strstr pipe ''$line''
            \<longrightarrow> exec_display_output hst c buffer out_flag
                  = concat (map (\<lambda>l. case string_replace hst pipe ''$line'' (dec l) of
                                        None \<Rightarrow> [] | Some line2 \<Rightarrow> [Command buffer line2]) lines))
       \<and> ((captured = ''line1\<newline>line2\<newline>'' \<or> captured = ''line1\<newline>line2'')
            \<and> pipe_command c = None \<and> output_to_buffer c \<noteq> 0 \<and> buffer \<noteq> None
            \<and> line_numbers c \<noteq> 0
            \<longrightarrow> exec_display_output hst c buffer out_flag
                  = [Command buffer (''1. '' @ dec ''line1''),
                     Command buffer (''2. '' @ dec ''line2'')])
       \<and> ((captured = ''line1\<newline>line2\<newline>'' \<or> captured = ''line1\<newline>line2'')
            \<and> pipe_command c = None \<and> output_to_buffer c = 0 \<and> line_numbers c \<noteq> 0
            \<longrightarrow> exec_display_output hst c buffer out_flag
                  = [Printf_tags buffer tags (''1'' @ [CHR 0x09] @ dec ''line1''),
                     Printf_tags buffer tags (''2'' @ [CHR 0x09] @ dec ''line2'')])
       \<and> ((captured = ''line1\<newline>line2\<newline>'' \<or> captured = ''line1\<newline>line2'')
            \<and> pipe_command c = Some pipe \<and> \<not> strstr pipe ''$line'' \<and> length pipe < 1000000000
            \<longrightarrow> exec_display_output hst c buffer out_flag
                  = [Command buffer (pipe @ '' '' @ dec ''line1''),
                     Command buffer (pipe @ '' '' @ dec ''line2'')])
       \<and> (captured = ''a\<newline>\<newline>b''
            \<and> pipe_command c = None \<and> output_to_buffer c \<noteq> 0 \<and> buffer \<noteq> None
            \<and> line_numbers c \<noteq> 0
            \<longrightarrow> exec_display_output hst c buffer out_flag
                  = [Command buffer (''1. '' @ dec ''a''), Command buffer (''2. '' @ dec ''''),
                     Command buffer (''3. '' @ dec ''b'')])
       \<and> (\<forall>u v. captured = u @ ''\<newline>\<newline>'' @ v \<longrightarrow> lines = split_lf u @ [[]] @ spec_lines v)"
proof -
  let ?body = "\<lambda>(i, l). exec_display_line hst c buffer out_flag (int i) (dec l)"
  have lines_le: "length (spec_lines captured) \<le> length captured"
    by (rule length_spec_lines)
  have elts: "1 \<le> i \<and> int i < 2147483648 \<and> l \<in> set (spec_lines captured)"
    if "(i, l) \<in> set numbered" for i l
  proof -
    from that have "i \<in> set [1 ..< 1 + length (spec_lines captured)]"
      and "l \<in> set (spec_lines captured)"
      unfolding numbered_def by (auto dest: set_zip_leftD set_zip_rightD)
    with lines_le len show ?thesis by auto
  qed
  have suppressed: "exec_display_output hst c buffer out_flag = []"
    if "pipe_command c = None \<and> output_to_buffer c \<noteq> 0 \<and> buffer = None"
    using that cap by (simp add: exec_display_output_def)
  have shown: "exec_display_output hst c buffer out_flag = concat (map ?body numbered)"
    if "\<not> (output_to_buffer c \<noteq> 0 \<and> pipe_command c = None \<and> buffer = None)"
  proof -
    have nonnull: "\<forall>l\<in>set (spec_lines captured). exec_decode_color hst c (Some l) \<noteq> None"
      using decs by auto
    have "exec_display_loop hst c buffer out_flag captured (int 1)
           = concat (map (\<lambda>(i, l). exec_display_line hst c buffer out_flag (int i)
                                    (the (exec_decode_color hst c (Some l))))
                         (zip [1 ..< 1 + length (spec_lines captured)] (spec_lines captured)))"
      using mem nonnull len by (intro exec_display_loop_lines) simp_all
    moreover have "map (\<lambda>(i, l). exec_display_line hst c buffer out_flag (int i)
                                    (the (exec_decode_color hst c (Some l)))) numbered
                   = map ?body numbered"
      using elts decs by (intro map_cong) auto
    moreover have "exec_display_output hst c buffer out_flag
                   = exec_display_loop hst c buffer out_flag captured (int 1)"
      using cap that by (auto simp: exec_display_output_def)
    ultimately show ?thesis by (simp only: numbered_def)
  qed
  have short: "length (dec l) < 1000000000" if "l \<in> set (spec_lines captured)" for l
    using that decs by auto
  have buffer_numbered: "exec_display_output hst c buffer out_flag
      = map (\<lambda>(i, l). Command buffer (show_int (int i) @ ''. '' @ dec l)) numbered"
    if m: "pipe_command c = None \<and> output_to_buffer c \<noteq> 0 \<and> buffer \<noteq> None
           \<and> line_numbers c \<noteq> 0"
  proof -
    have "\<forall>z\<in>set numbered. ?body z
            = [(\<lambda>(i, l). Command buffer (show_int (int i) @ ''. '' @ dec l)) z]"
    proof
      fix z assume z: "z \<in> set numbered"
      obtain i l where il: "z = (i, l)" by (cases z)
      with z elts [of i l] short [of l] m mem show "?body z
            = [(\<lambda>(i, l). Command buffer (show_int (int i) @ ''. '' @ dec l)) z]"
        by (simp add: exec_display_line_buffer_numbered)
    qed
    then have "concat (map ?body numbered)
                 = map (\<lambda>(i, l). Command buffer (show_int (int i) @ ''. '' @ dec l)) numbered"
      by (rule concat_map_singletons)
    with shown m show ?thesis by simp
  qed
  have buffer_plain: "exec_display_output hst c buffer out_flag
      = map (\<lambda>l. Command buffer (if dec l \<noteq> [] then dec l else '' '')) lines"
    if m: "pipe_command c = None \<and> output_to_buffer c \<noteq> 0 \<and> buffer \<noteq> None
           \<and> line_numbers c = 0"
  proof -
    have "?body = (\<lambda>(i, l). [Command buffer (if dec l \<noteq> [] then dec l else '' '')])"
      using m by (simp add: exec_display_line_buffer_plain fun_eq_iff)
    then have "concat (map ?body numbered)
        = concat (map (\<lambda>l. [Command buffer (if dec l \<noteq> [] then dec l else '' '')]) lines)"
      unfolding numbered_def lines_def by (simp only: map_snd_of_zip length_upt add_diff_cancel_left')
    with shown m show ?thesis by (simp add: concat_map_singletons)
  qed
  have default_mode: "exec_display_output hst c buffer out_flag
      = map (\<lambda>(i, l). Printf_tags buffer tags
               ((if line_numbers c \<noteq> 0 then show_int (int i) @ [CHR 0x09]
                 else [CHR '' '', CHR 0x09]) @ dec l)) numbered"
    if m: "pipe_command c = None \<and> output_to_buffer c = 0"
  proof -
    have "\<forall>z\<in>set numbered. ?body z
            = [(\<lambda>(i, l). Printf_tags buffer tags
               ((if line_numbers c \<noteq> 0 then show_int (int i) @ [CHR 0x09]
                 else [CHR '' '', CHR 0x09]) @ dec l)) z]"
    proof
      fix z assume z: "z \<in> set numbered"
      obtain i l where il: "z = (i, l)" by (cases z)
      with z elts [of i l] m show "?body z
            = [(\<lambda>(i, l). Printf_tags buffer tags
               ((if line_numbers c \<noteq> 0 then show_int (int i) @ [CHR 0x09]
                 else [CHR '' '', CHR 0x09]) @ dec l)) z]"
        by (simp add: exec_display_line_default tags_def)
    qed
    then have "concat (map ?body numbered)
                 = map (\<lambda>(i, l). Printf_tags buffer tags
               ((if line_numbers c \<noteq> 0 then show_int (int i) @ [CHR 0x09]
                 else [CHR '' '', CHR 0x09]) @ dec l)) numbered"
      by (rule concat_map_singletons)
    with shown m show ?thesis by simp
  qed
  have pipe_append: "exec_display_output hst c buffer out_flag
      = map (\<lambda>l. Command buffer (pipe @ '' '' @ dec l)) lines"
    if m: "pipe_command c = Some pipe \<and> \<not> strstr pipe ''$line'' \<and> length pipe < 1000000000"
  proof -
    have "\<forall>z\<in>set numbered. ?body z = [(\<lambda>(i, l). Command buffer (pipe @ '' '' @ dec l)) z]"
    proof
      fix z assume z: "z \<in> set numbered"
      obtain i l where il: "z = (i, l)" by (cases z)
      with z elts [of i l] short [of l] m mem
      show "?body z = [(\<lambda>(i, l). Command buffer (pipe @ '' '' @ dec l)) z]"
        by (simp add: exec_display_line_pipe_append)
    qed
    then have "concat (map ?body numbered)
                 = map (\<lambda>(i, l). Command buffer (pipe @ '' '' @ dec l)) numbered"
      by (rule concat_map_singletons)
    also have "\<dots> = map (\<lambda>l. Command buffer (pipe @ '' '' @ dec l)) lines"
      unfolding numbered_def lines_def by (simp only: map_snd_of_zip length_upt add_diff_cancel_left')
    finally show ?thesis using shown m by simp
  qed
  have pipe_replace: "exec_display_output hst c buffer out_flag
      = concat (map (\<lambda>l. case string_replace hst pipe ''$line'' (dec l) of
                            None \<Rightarrow> [] | Some line2 \<Rightarrow> [Command buffer line2]) lines)"
    if m: "pipe_command c = Some pipe \<and> strstr pipe ''$line''"
  proof -
    have "?body = (\<lambda>(i, l). case string_replace hst pipe ''$line'' (dec l) of
                            None \<Rightarrow> [] | Some line2 \<Rightarrow> [Command buffer line2])"
      using m by (simp add: exec_display_line_pipe_replace fun_eq_iff)
    then have "concat (map ?body numbered)
        = concat (map (\<lambda>l. case string_replace hst pipe ''$line'' (dec l) of
                            None \<Rightarrow> [] | Some line2 \<Rightarrow> [Command buffer line2]) lines)"
      unfolding numbered_def lines_def by (simp only: map_snd_of_zip length_upt add_diff_cancel_left')
    with shown m show ?thesis by simp
  qed
  have two: "lines = [''line1'', ''line2'']
             \<and> numbered = [(1, ''line1''), (2, ''line2'')]"
    if "captured = ''line1\<newline>line2\<newline>'' \<or> captured = ''line1\<newline>line2''"
  proof -
    have "spec_lines ''line1\<newline>line2\<newline>'' = [''line1'', ''line2'']"
      "spec_lines ''line1\<newline>line2'' = [''line1'', ''line2'']"
      by (simp_all add: spec_lines_def)
    with that have l: "spec_lines captured = [''line1'', ''line2'']" by auto
    have "[1 ..< 1 + length [''line1'', ''line2'']] = [1, 2 :: nat]" by code_simp
    with l show ?thesis by (simp add: lines_def numbered_def)
  qed
  have one_two: "show_int (int 1) = ''1''" "show_int (int 2) = ''2''" "show_int (int 3) = ''3''"
    by (simp_all add: show_int_def dec_digits.simps)
  have three: "numbered = [(1, ''a''), (2, []), (3, ''b'')]" if "captured = ''a\<newline>\<newline>b''"
  proof -
    have l: "spec_lines ''a\<newline>\<newline>b'' = [''a'', [], ''b'']" by (simp add: spec_lines_def)
    have "[1 ..< 1 + length [''a'', [], ''b'']] = [1, 2, 3 :: nat]" by code_simp
    with l that show ?thesis by (simp add: numbered_def)
  qed
  have gaps: "lines = split_lf u @ [[]] @ spec_lines v" if "captured = u @ ''\<newline>\<newline>'' @ v" for u v
  proof -
    have "spec_lines (u @ CHR 0x0A # CHR 0x0A # v) = split_lf u @ spec_lines ([] @ CHR 0x0A # v)"
      by (simp add: spec_lines_append_lf)
    also have "spec_lines ([] @ CHR 0x0A # v) = split_lf [] @ spec_lines v"
      by (rule spec_lines_append_lf)
    finally show ?thesis using that by (simp add: lines_def)
  qed
  show ?thesis
  proof (intro conjI impI allI)
    show "exec_display_output hst c buffer out_flag = []"
      if "pipe_command c = None \<and> output_to_buffer c \<noteq> 0 \<and> buffer = None"
      using that by (rule suppressed)
  qed (use buffer_numbered buffer_plain default_mode pipe_append pipe_replace two one_two three gaps
      in \<open>simp_all\<close>)
qed

theorem exec_display_output_emits_witness:
  "(\<forall>n. alloc plain_host n)
   \<and> out job_two_lines = Some ''line1\<newline>line2\<newline>''
   \<and> pipe_command job_two_lines = None \<and> line_numbers job_two_lines = 1
   \<and> exec_display_output plain_host job_two_lines (Some 7) 1
       = [Command (Some 7) ''1. line1'', Command (Some 7) ''2. line2'']
   \<and> err job_two_lines = Some ''line1\<newline>line2''
   \<and> exec_display_output plain_host job_two_lines (Some 7) 0
       = [Command (Some 7) ''1. line1'', Command (Some 7) ''2. line2'']
   \<and> exec_display_output plain_host (job_two_lines\<lparr>output_to_buffer := 0\<rparr>) None 1
       = [Printf_tags None ''exec_stdout,exec_cmd_0'' (''1'' @ [CHR 0x09] @ ''line1''),
          Printf_tags None ''exec_stdout,exec_cmd_0'' (''2'' @ [CHR 0x09] @ ''line2'')]"
proof -
  have h1: "\<forall>n. alloc plain_host n" by (simp add: plain_host_def)
  have h2: "(if (1::int) \<noteq> 0 then out job_two_lines else err job_two_lines)
              = Some ''line1\<newline>line2\<newline>''"
    by (simp add: job_two_lines_def)
  have h3: "length ''line1\<newline>line2\<newline>'' < 2147483647" by simp
  have h4: "\<forall>l\<in>set (spec_lines ''line1\<newline>line2\<newline>'').
              exec_decode_color plain_host job_two_lines (Some l) = Some ((\<lambda>x. x) l)
              \<and> length ((\<lambda>x. x) l) < 1000000000"
    by (simp add: spec_lines_def exec_decode_color_def plain_host_def job_two_lines_def
        EXEC_COLOR_ANSI_def)
  note inst = exec_display_output_emits
    [where buffer = "Some 7" and pipe = "[]", OF h1 h2 h3 h4]
  note two_lines = inst [THEN conjunct2, THEN conjunct2, THEN conjunct2, THEN conjunct2,
    THEN conjunct2, THEN conjunct2, THEN conjunct1]
  from two_lines have r: "exec_display_output plain_host job_two_lines (Some 7) 1
       = [Command (Some 7) ''1. line1'', Command (Some 7) ''2. line2'']"
    by (simp add: job_two_lines_def)
  have e: "exec_display_output plain_host job_two_lines (Some 7) 0
       = [Command (Some 7) ''1. line1'', Command (Some 7) ''2. line2'']"
    by code_simp
  have q: "exec_display_output plain_host (job_two_lines\<lparr>output_to_buffer := 0\<rparr>) None 1
       = [Printf_tags None ''exec_stdout,exec_cmd_0'' (''1'' @ [CHR 0x09] @ ''line1''),
          Printf_tags None ''exec_stdout,exec_cmd_0'' (''2'' @ [CHR 0x09] @ ''line2'')]"
    by code_simp
  from h1 r e q show ?thesis by (simp add: job_two_lines_def)
qed

text \<open>
  C8, as the claim words it, fails: a job with numbering on and a pipe command sends its
  two lines as two commands that carry no number.
\<close>

theorem exec_display_output_pipe_unnumbered:
  "line_numbers job_piped = 1
   \<and> pipe_command job_piped = Some ''/say''
   \<and> out job_piped = Some ''line1\<newline>line2\<newline>''
   \<and> exec_display_output plain_host job_piped (Some 7) 1
       = [Command (Some 7) ''/say line1'', Command (Some 7) ''/say line2'']"
  by code_simp

subsection \<open>The end of a command and the process callback\<close>

text \<open>What \<^verbatim>\<open>exec_end_command\<close> does to a live command.\<close>

lemma exec_end_command_effect:
  assumes "heap s p = Some c"
  shows "\<exists>s'. exec_end_command hst p code s = Some s'
           \<and> heap s' = (heap s)(p \<mapsto> c\<lparr>hook := None, pid := 0, end_time := time_now hst,
                                        return_code := code\<rparr>)
           \<and> events s' = events s @ exec_end_events hst c code
           \<and> timers s' = timers s @
                (if command_purge_delay hst \<ge> 0
                 then [\<lparr>interval = int32 (1 + int32 (1000 * command_purge_delay hst)),
                        align_second = 0, max_calls = 1, data = p\<rparr>]
                 else [])
           \<and> exec_cmds s' = exec_cmds s \<and> last_exec_cmd s' = last_exec_cmd s"
  using assms by (simp add: exec_end_command_def upd_def)

text \<open>
  What \<^verbatim>\<open>exec_process_cb\<close> does to a live command: \<open>c1\<close> is the command after the
  chunks have been handled, \<open>final\<close> tells whether the command is ended and \<open>code\<close> is
  the return code it is ended with.
\<close>

lemma exec_process_cb_effect:
  fixes hst :: host and c :: exec_cmd and return_code_arg :: int
    and out_arg err_arg :: "string option"
  defines "c1 \<equiv> (if return_code_arg = HOOK_PROCESS_ERROR hst then c
                  else (case err_arg of None \<Rightarrow> (\<lambda>x. x) | Some t \<Rightarrow> concat_stderr hst t)
                         ((case out_arg of None \<Rightarrow> (\<lambda>x. x) | Some t \<Rightarrow> concat_stdout hst t) c))"
    and "final \<equiv> (return_code_arg = HOOK_PROCESS_ERROR hst \<or> return_code_arg \<ge> 0)"
    and "code \<equiv> (if return_code_arg = HOOK_PROCESS_ERROR hst then - 1 else return_code_arg)"
  assumes live: "heap s p = Some c"
  shows "\<exists>s'. exec_process_cb hst (Some p) command_arg return_code_arg out_arg err_arg s
                 = Some (s', WEECHAT_RC_OK)
           \<and> heap s' = (heap s)(p \<mapsto> (if final
                 then c1\<lparr>hook := None, pid := 0, end_time := time_now hst, return_code := code\<rparr>
                 else c1))
           \<and> events s' = events s
                @ (if debug hst \<ge> 2
                   then [process_cb_debug hst c return_code_arg out_arg err_arg] else [])
                @ (if final then exec_end_events hst c1 code else [])
           \<and> timers s' = timers s @
                (if final \<and> command_purge_delay hst \<ge> 0
                 then [\<lparr>interval = int32 (1 + int32 (1000 * command_purge_delay hst)),
                        align_second = 0, max_calls = 1, data = p\<rparr>]
                 else [])
           \<and> exec_cmds s' = exec_cmds s \<and> last_exec_cmd s' = last_exec_cmd s"
  using live
  by (cases out_arg; cases err_arg)
     (auto simp: exec_process_cb_def exec_end_command_def upd_def c1_def final_def code_def
        fun_upd_idem)

lemma exec_add_new_cmd:
  "exec_add hst (Some a) junk s = Some (s', r)
   \<Longrightarrow> \<exists>c. heap s' a = Some c \<and> return_code c = - 1 \<and> out c = None \<and> err c = None"
  by (auto simp: exec_add_def upd_def Let_def Option.bind_eq_Some_conv
      split: option.splits if_splits)

lemma exec_concat_output_appends:
  assumes "alloc hst (int32 (int32 (sz + int32 (int (length t))) + 1))"
    and "sz = int (length (case buf of None \<Rightarrow> [] | Some old \<Rightarrow> old))"
  shows "snd (exec_concat_output hst (sz, buf) t)
           = Some ((case buf of None \<Rightarrow> [] | Some old \<Rightarrow> old) @ t)"
  using assms by (simp add: exec_concat_output_def Let_def)

lemma exec_concat_output_fails:
  "\<not> alloc hst (int32 (int32 (sz + int32 (int (length t))) + 1))
   \<Longrightarrow> exec_concat_output hst (sz, buf) t = (sz, buf)"
  by (simp add: exec_concat_output_def Let_def)





lemma concat_fields [simp]:
  "out (concat_stderr hst u x) = out x"
  "err (concat_stdout hst t x) = err x"
  "err_size (concat_stdout hst t x) = err_size x"
  "out (concat_stdout hst t x) = snd (exec_concat_output hst (out_size x, out x) t)"
  "err (concat_stderr hst u x) = snd (exec_concat_output hst (err_size x, err x) u)"
  by (simp_all add: concat_stdout_def concat_stderr_def split: prod.splits)

subsection \<open>Claims about the completion of a command\<close>




text \<open>
  C2, as the code has it. A call of the callback for a live command returns. When the
  return code is not the error code, a chunk of stdout that comes with the call is
  appended to \<open>out\<close> and a chunk of stderr to \<open>err\<close>, provided \<^verbatim>\<open>realloc\<close> gives the
  memory (the sizes kept in the structure being the lengths of the buffers). When the
  return code is the error code the command is ended before the chunks are looked at:
  both buffers stay as they were.
\<close>

theorem exec_process_cb_appends_chunks:
  assumes "heap s p = Some c"
  shows "\<exists>s' c'. exec_process_cb hst (Some p) command_arg return_code_arg out_arg err_arg s
                    = Some (s', WEECHAT_RC_OK)
           \<and> heap s' p = Some c'
           \<and> (\<forall>t. return_code_arg \<noteq> HOOK_PROCESS_ERROR hst \<and> out_arg = Some t
                  \<and> out_size c = int (length (case out c of None \<Rightarrow> [] | Some old \<Rightarrow> old))
                  \<and> alloc hst (int32 (int32 (out_size c + int32 (int (length t))) + 1))
                \<longrightarrow> out c' = Some ((case out c of None \<Rightarrow> [] | Some old \<Rightarrow> old) @ t))
           \<and> (\<forall>u. return_code_arg \<noteq> HOOK_PROCESS_ERROR hst \<and> err_arg = Some u
                  \<and> err_size c = int (length (case err c of None \<Rightarrow> [] | Some old \<Rightarrow> old))
                  \<and> alloc hst (int32 (int32 (err_size c + int32 (int (length u))) + 1))
                \<longrightarrow> err c' = Some ((case err c of None \<Rightarrow> [] | Some old \<Rightarrow> old) @ u))
           \<and> (\<forall>t. out_arg = Some t
                  \<and> \<not> alloc hst (int32 (int32 (out_size c + int32 (int (length t))) + 1))
                \<longrightarrow> out c' = out c)
           \<and> (\<forall>u. err_arg = Some u
                  \<and> \<not> alloc hst (int32 (int32 (err_size c + int32 (int (length u))) + 1))
                \<longrightarrow> err c' = err c)
           \<and> (return_code_arg = HOOK_PROCESS_ERROR hst \<longrightarrow> out c' = out c \<and> err c' = err c)"
proof -
  from exec_process_cb_effect [OF assms, of hst command_arg return_code_arg out_arg err_arg]
  obtain s' where
    run: "exec_process_cb hst (Some p) command_arg return_code_arg out_arg err_arg s
            = Some (s', WEECHAT_RC_OK)"
    and hp: "heap s' = (heap s)(p \<mapsto>
       (if return_code_arg = HOOK_PROCESS_ERROR hst \<or> return_code_arg \<ge> 0
        then (if return_code_arg = HOOK_PROCESS_ERROR hst then c
              else (case err_arg of None \<Rightarrow> (\<lambda>x. x) | Some t \<Rightarrow> concat_stderr hst t)
                     ((case out_arg of None \<Rightarrow> (\<lambda>x. x) | Some t \<Rightarrow> concat_stdout hst t) c))
               \<lparr>hook := None, pid := 0, end_time := time_now hst,
                return_code := (if return_code_arg = HOOK_PROCESS_ERROR hst then - 1
                                else return_code_arg)\<rparr>
        else (if return_code_arg = HOOK_PROCESS_ERROR hst then c
              else (case err_arg of None \<Rightarrow> (\<lambda>x. x) | Some t \<Rightarrow> concat_stderr hst t)
                     ((case out_arg of None \<Rightarrow> (\<lambda>x. x) | Some t \<Rightarrow> concat_stdout hst t) c))))"
    by blast
  define c1 where "c1 = (if return_code_arg = HOOK_PROCESS_ERROR hst then c
              else (case err_arg of None \<Rightarrow> (\<lambda>x. x) | Some t \<Rightarrow> concat_stderr hst t)
                     ((case out_arg of None \<Rightarrow> (\<lambda>x. x) | Some t \<Rightarrow> concat_stdout hst t) c))"
  from hp obtain c' where c': "heap s' p = Some c'" and oc: "out c' = out c1"
    and ec: "err c' = err c1"
    by (auto simp: c1_def)
  have o: "out c1 = Some ((case out c of None \<Rightarrow> [] | Some old \<Rightarrow> old) @ t)"
    if "return_code_arg \<noteq> HOOK_PROCESS_ERROR hst" "out_arg = Some t"
      "out_size c = int (length (case out c of None \<Rightarrow> [] | Some old \<Rightarrow> old))"
      "alloc hst (int32 (int32 (out_size c + int32 (int (length t))) + 1))" for t
    using that exec_concat_output_appends [of hst "out_size c" t "out c"]
    by (cases err_arg) (simp_all add: c1_def)
  have e: "err c1 = Some ((case err c of None \<Rightarrow> [] | Some old \<Rightarrow> old) @ u)"
    if "return_code_arg \<noteq> HOOK_PROCESS_ERROR hst" "err_arg = Some u"
      "err_size c = int (length (case err c of None \<Rightarrow> [] | Some old \<Rightarrow> old))"
      "alloc hst (int32 (int32 (err_size c + int32 (int (length u))) + 1))" for u
    using that exec_concat_output_appends [of hst "err_size c" u "err c"]
    by (cases out_arg) (simp_all add: c1_def)
  have n: "out c1 = out c \<and> err c1 = err c" if "return_code_arg = HOOK_PROCESS_ERROR hst"
    using that by (simp add: c1_def)
  have o_fail: "out c1 = out c"
    if "out_arg = Some t"
      "\<not> alloc hst (int32 (int32 (out_size c + int32 (int (length t))) + 1))" for t
    using that exec_concat_output_fails [of hst "out_size c" t "out c"]
    by (cases err_arg) (simp_all add: c1_def)
  have e_fail: "err c1 = err c"
    if "err_arg = Some u"
      "\<not> alloc hst (int32 (int32 (err_size c + int32 (int (length u))) + 1))" for u
    using that exec_concat_output_fails [of hst "err_size c" u "err c"]
    by (cases out_arg) (simp_all add: c1_def)
  from run c' oc ec o e n o_fail e_fail show ?thesis by auto
qed

theorem exec_process_cb_appends_chunks_witness:
  "map_option out (heap (then_process_cb 1 (- 1) (Some ''a\<newline>'') (Some ''e'')
                           (then_add 1 exec_init)) 1) = Some (Some ''a\<newline>'')
   \<and> (\<exists>s'. exec_process_cb plain_host (Some 1) None (- 1) (Some ''b\<newline>'') None
               (then_process_cb 1 (- 1) (Some ''a\<newline>'') (Some ''e'') (then_add 1 exec_init))
             = Some (s', WEECHAT_RC_OK)
          \<and> map_option out (heap s' 1) = Some (Some ''a\<newline>b\<newline>''))"
proof -
  define s where "s = then_process_cb 1 (- 1) (Some ''a\<newline>'') (Some ''e'') (then_add 1 exec_init)"
  have live: "heap s 1 = Some (the (heap s 1))"
    unfolding s_def by code_simp
  have before: "out (the (heap s 1)) = Some ''a\<newline>''" "out_size (the (heap s 1)) = 2"
    unfolding s_def by code_simp+
  have first: "map_option out (heap s 1) = Some (Some ''a\<newline>'')"
    unfolding s_def by code_simp
  from exec_process_cb_appends_chunks [OF live, of plain_host None "- 1" "Some ''b\<newline>''" None]
  obtain s' c' where
    run: "exec_process_cb plain_host (Some 1) None (- 1) (Some ''b\<newline>'') None s
            = Some (s', WEECHAT_RC_OK)"
    and c': "heap s' 1 = Some c'"
    and app: "\<forall>t. (- 1 :: int) \<noteq> HOOK_PROCESS_ERROR plain_host \<and> Some ''b\<newline>'' = Some t
                  \<and> out_size (the (heap s 1))
                      = int (length (case out (the (heap s 1)) of None \<Rightarrow> [] | Some old \<Rightarrow> old))
                  \<and> alloc plain_host
                      (int32 (int32 (out_size (the (heap s 1)) + int32 (int (length t))) + 1))
                \<longrightarrow> out c' = Some ((case out (the (heap s 1)) of None \<Rightarrow> []
                                      | Some old \<Rightarrow> old) @ t)"
    by blast
  from app before have "out c' = Some ''a\<newline>b\<newline>''"
    by (simp add: plain_host_def)
  with run c' first show ?thesis by (auto simp: s_def)
qed

text \<open>
  C2, as the claim words it, fails: the chunks that come with the error code are not kept.
\<close>

theorem exec_process_cb_error_drops_chunks:
  "HOOK_PROCESS_ERROR plain_host = - 2
   \<and> map_option snd (exec_process_cb plain_host (Some 1) None (- 2) (Some ''lost'') (Some ''gone'')
                       (then_add 1 exec_init)) = Some WEECHAT_RC_OK
   \<and> map_option out (heap (then_process_cb 1 (- 2) (Some ''lost'') (Some ''gone'')
                             (then_add 1 exec_init)) 1) = Some None
   \<and> map_option err (heap (then_process_cb 1 (- 2) (Some ''lost'') (Some ''gone'')
                             (then_add 1 exec_init)) 1) = Some None"
  by code_simp

text \<open>
  C3, as the code has it. \<^verbatim>\<open>exec_add\<close> sets \<^verbatim>\<open>return_code\<close> to \<open>-1\<close>, and the
  callback with the error code ends the command with the return code \<open>-1\<close>: the value
  stored for an unexpected end is the value that the field has before the end.
\<close>

theorem exec_process_cb_error_return_code:
  "(exec_add hst (Some a) junk s0 = Some (s1, r)
      \<longrightarrow> map_option return_code (heap s1 a) = Some (- 1))
   \<and> (heap s p = Some c
      \<longrightarrow> (\<exists>s' c'. exec_process_cb hst (Some p) command_arg (HOOK_PROCESS_ERROR hst)
                        out_arg err_arg s = Some (s', WEECHAT_RC_OK)
             \<and> heap s' p = Some c' \<and> return_code c' = - 1))"
proof (intro conjI impI)
  assume "exec_add hst (Some a) junk s0 = Some (s1, r)"
  from exec_add_new_cmd [OF this] show "map_option return_code (heap s1 a) = Some (- 1)"
    by auto
next
  assume "heap s p = Some c"
  from exec_process_cb_effect [OF this, of hst command_arg "HOOK_PROCESS_ERROR hst" out_arg err_arg]
  show "\<exists>s' c'. exec_process_cb hst (Some p) command_arg (HOOK_PROCESS_ERROR hst)
                        out_arg err_arg s = Some (s', WEECHAT_RC_OK)
             \<and> heap s' p = Some c' \<and> return_code c' = - 1"
    by auto
qed

theorem exec_process_cb_error_return_code_witness:
  "exec_add plain_host (Some 1) 0 exec_init = Some (then_add 1 exec_init, Some 1)
   \<and> map_option return_code (heap (then_add 1 exec_init) 1) = Some (- 1)
   \<and> heap (then_add 1 exec_init) 1 \<noteq> None
   \<and> (\<exists>s'. exec_process_cb plain_host (Some 1) None (HOOK_PROCESS_ERROR plain_host)
               None None (then_add 1 exec_init) = Some (s', WEECHAT_RC_OK)
          \<and> map_option return_code (heap s' 1) = Some (- 1))"
proof -
  have add: "exec_add plain_host (Some 1) 0 exec_init = Some (then_add 1 exec_init, Some 1)"
    by (simp add: run_defs)
  have live: "heap (then_add 1 exec_init) 1 = Some (the (heap (then_add 1 exec_init) 1))"
    by (simp add: run_defs)
  note inst = exec_process_cb_error_return_code
    [of plain_host 1 0 exec_init "then_add 1 exec_init" "Some 1" "then_add 1 exec_init" 1
      "the (heap (then_add 1 exec_init) 1)" None None None]
  from inst add have a: "map_option return_code (heap (then_add 1 exec_init) 1) = Some (- 1)"
    by blast
  from inst live obtain s' c' where
    "exec_process_cb plain_host (Some 1) None (HOOK_PROCESS_ERROR plain_host)
               None None (then_add 1 exec_init) = Some (s', WEECHAT_RC_OK)"
    "heap s' 1 = Some c'" "return_code c' = - 1"
    by blast
  with add a live show ?thesis by auto
qed

text \<open>
  C3, as the claim words it, fails: the return code stored after the error code is the
  one that \<^verbatim>\<open>exec_add\<close> had stored.
\<close>

theorem exec_process_cb_error_code_is_initial_code:
  "HOOK_PROCESS_ERROR plain_host = - 2
   \<and> map_option return_code (heap (then_add 1 exec_init) 1) = Some (- 1)
   \<and> map_option return_code
        (heap (then_process_cb 1 (- 2) None None (then_add 1 exec_init)) 1) = Some (- 1)"
  by code_simp

text \<open>
  C4, as the code has it. When the purge delay \<open>d\<close> is not negative,
  \<^verbatim>\<open>exec_end_command\<close> asks for one timer with the interval \<open>1 + 1000 * d\<close>
  milliseconds (for \<open>d\<close> up to 2147483, where this fits an \<^verbatim>\<open>int\<close>), to be called
  once, with the command as its data; when the delay is negative it asks for none. The
  list is left as it was, and the callback of the timer, \<^verbatim>\<open>exec_timer_delete_cb\<close>,
  finds the command in the list and removes it.
\<close>

theorem exec_end_command_purge_timer:
  assumes "registry s xs" and "p \<in> set xs"
  shows "\<exists>s'. exec_end_command hst p code s = Some s'
           \<and> registry s' xs
           \<and> (command_purge_delay hst < 0 \<longrightarrow> timers s' = timers s)
           \<and> (0 \<le> command_purge_delay hst \<and> command_purge_delay hst \<le> 2147483
                \<longrightarrow> timers s' = timers s @
                      [\<lparr>interval = 1 + 1000 * command_purge_delay hst,
                        align_second = 0, max_calls = 1, data = p\<rparr>])
           \<and> (\<exists>s''. exec_timer_delete_cb (Some p) remaining_calls s'
                        = Some (s'', WEECHAT_RC_OK)
                  \<and> registry s'' (remove1 p xs) \<and> heap s'' p = None)"
proof -
  from assms(1) have d: "distinct xs"
    and seg: "dseg (heap s) None (exec_cmds s) xs (last_exec_cmd s) None"
    by (simp_all add: registry_def)
  from dseg_live [OF seg assms(2)] obtain c where c: "heap s p = Some c" by auto
  from exec_end_command_effect [OF c, of hst code] obtain s' where
    run: "exec_end_command hst p code s = Some s'"
    and hp: "heap s' = (heap s)(p \<mapsto> c\<lparr>hook := None, pid := 0, end_time := time_now hst,
                                        return_code := code\<rparr>)"
    and tm: "timers s' = timers s @
                (if command_purge_delay hst \<ge> 0
                 then [\<lparr>interval = int32 (1 + int32 (1000 * command_purge_delay hst)),
                        align_second = 0, max_calls = 1, data = p\<rparr>]
                 else [])"
    and hd: "exec_cmds s' = exec_cmds s" and tl: "last_exec_cmd s' = last_exec_cmd s"
    by blast
  have "dseg (heap s') None (exec_cmds s) xs (last_exec_cmd s) None
          = dseg (heap s) None (exec_cmds s) xs (last_exec_cmd s) None"
    by (rule dseg_links) (simp add: hp c)
  with seg d hd tl have reg': "registry s' xs" by (simp add: registry_def)
  then have seg': "dseg (heap s') None (exec_cmds s') xs (last_exec_cmd s') None"
    by (simp add: registry_def)
  have none: "timers s' = timers s" if "command_purge_delay hst < 0"
    using that tm by simp
  have one: "timers s' = timers s @
                      [\<lparr>interval = 1 + 1000 * command_purge_delay hst,
                        align_second = 0, max_calls = 1, data = p\<rparr>]"
    if "0 \<le> command_purge_delay hst \<and> command_purge_delay hst \<le> 2147483"
  proof -
    from that have "int32 (1000 * command_purge_delay hst) = 1000 * command_purge_delay hst"
      by (intro int32_id) simp_all
    moreover from that have "int32 (1 + 1000 * command_purge_delay hst)
                               = 1 + 1000 * command_purge_delay hst"
      by (intro int32_id) simp_all
    ultimately show ?thesis using that tm by simp
  qed
  from exec_free_registry [OF reg' assms(2)] obtain s'' where
    fr: "exec_free (Some p) s' = Some s''" and reg'': "registry s'' (remove1 p xs)"
    and dom: "\<forall>b. heap s'' b \<noteq> None \<longleftrightarrow> (b \<noteq> p \<and> heap s' b \<noteq> None)"
    by blast
  from dom have gone: "heap s'' p = None" by auto
  have "exec_timer_delete_cb (Some p) remaining_calls s' = Some (s'', WEECHAT_RC_OK)"
    using exec_timer_loop_member [OF seg', of p] assms(2) fr
    by (simp add: exec_timer_delete_cb_def)
  with run reg' none one reg'' gone show ?thesis by blast
qed

theorem exec_end_command_purge_timer_witness:
  "registry (then_add 1 exec_init) [1]
   \<and> command_purge_delay plain_host = 1
   \<and> (\<exists>s'. exec_end_command plain_host 1 0 (then_add 1 exec_init) = Some s'
         \<and> timers s' = [\<lparr>interval = 1001, align_second = 0, max_calls = 1, data = 1\<rparr>]
         \<and> (\<exists>s''. exec_timer_delete_cb (Some 1) 0 s' = Some (s'', WEECHAT_RC_OK)
               \<and> registry s'' [] \<and> heap s'' 1 = None))"
proof -
  have reg: "registry (then_add 1 exec_init) [1]"
    by (simp add: registry_def run_defs)
  have mem: "(1 :: addr) \<in> set [1]" by simp
  have t0: "timers (then_add 1 exec_init) = []" by (simp add: run_defs)
  from exec_end_command_purge_timer [OF reg mem, of plain_host 0 0] t0
  show ?thesis using reg by (auto simp: plain_host_def)
qed

text \<open>
  C4, as the claim words it, fails: with a purge delay of one second the interval is
  1001 milliseconds, and \<open>max 1 (1 * 1000)\<close> is 1000.
\<close>

theorem exec_end_command_interval_one_second:
  "command_purge_delay plain_host = 1
   \<and> map_option (map interval \<circ> timers)
        (exec_end_command plain_host 1 0 (then_add 1 exec_init)) = Some [1001]
   \<and> max 1 (command_purge_delay plain_host * 1000) = 1000"
  by code_simp

end
